theory Spec2Isabelle
  imports Main "HOL-Library.Multiset"
begin

section \<open>Values, exceptions and dictionaries\<close>

text \<open>
  The program handles JSON values and pandas cells without computing on them, apart from
  the integers it writes to the \<open>Order\<close> column. A cell is therefore either \<open>NaN\<close> (the
  value pandas shows for a missing entry), a Python integer, or any other Python value
  (a string, a float, \<open>None\<close>), left abstract as the type parameter.
\<close>

datatype 'v cell = NaN | IntV int | Other 'v

text \<open>The exceptions the program can raise, as values.\<close>

datatype exn =
    KeyError string
  | Exception string
  | ClientError string
  | TypeError string

text \<open>
  A Python \<open>dict\<close> keeps its keys in insertion order. \<open>d[k] = v\<close> overwrites the value of an
  existing key where it stands and appends a new key at the end.
\<close>

type_synonym ('k, 'x) dict = "('k \<times> 'x) list"

fun setitem :: "('k, 'x) dict \<Rightarrow> 'k \<Rightarrow> 'x \<Rightarrow> ('k, 'x) dict" where
  "setitem [] k v = [(k, v)]"
| "setitem ((k', v') # d) k v = (if k' = k then (k, v) # d else (k', v') # setitem d k v)"

definition keys :: "('k, 'x) dict \<Rightarrow> 'k list" where
  "keys d = map fst d"

definition getitem :: "(string, 'x) dict \<Rightarrow> string \<Rightarrow> exn + 'x" where
  "getitem d k = (case map_of d k of None \<Rightarrow> Inl (KeyError k) | Some v \<Rightarrow> Inr v)"

text \<open>\<open>dict(pairs)\<close>: later pairs overwrite earlier ones with the same key.\<close>

definition dict_of :: "('k \<times> 'x) list \<Rightarrow> ('k, 'x) dict" where
  "dict_of pairs = foldl (\<lambda>d (k, v). setitem d k v) [] pairs"

text \<open>Sequencing of computations that may raise.\<close>

definition and_then :: "exn + 'a \<Rightarrow> ('a \<Rightarrow> exn + 'b) \<Rightarrow> exn + 'b" where
  "and_then r f = (case r of Inl e \<Rightarrow> Inl e | Inr x \<Rightarrow> f x)"

section \<open>Fetching one page\<close>

text \<open>
  The JSON body of a response: \<open>resp["status"]\<close> with its optional keys \<open>error_code\<close> and
  \<open>error_message\<close>, and the optional key \<open>data\<close>. \<open>None\<close> stands for an absent key.
\<close>

record resp_status =
  error_code :: "int option"
  error_message :: "string option"

record 'a response =
  status :: resp_status
  data :: "'a list option"

text \<open>
  The session answers one GET per page: the endpoint is the constant URL with the page
  number filled in, so the page number stands for the endpoint. A GET either raises
  (connection failure, timeout, a body that is not JSON) or yields a response.
\<close>

type_synonym 'a session = "nat \<Rightarrow> exn + 'a response"

definition get_one_page_asset_data_from_messari :: "'a session \<Rightarrow> nat \<Rightarrow> exn + 'a list" where
  "get_one_page_asset_data_from_messari session endpoint =
     (case session endpoint of
        Inl e \<Rightarrow> Inl e
      | Inr resp \<Rightarrow>
          (case error_code (status resp) of
             Some code \<Rightarrow>
               if code = 404 then Inr []
               else (case error_message (status resp) of
                       None \<Rightarrow> Inl (KeyError ''error_message'')
                     | Some msg \<Rightarrow> Inl (Exception msg))
           | None \<Rightarrow>
               (case data resp of
                  None \<Rightarrow> Inl (KeyError ''data'')
                | Some d \<Rightarrow> Inr d)))"

section \<open>Fetching all pages\<close>

definition NUM_OF_CONCURRENT_SESSIONS :: nat where
  "NUM_OF_CONCURRENT_SESSIONS = 7"

text \<open>
  \<open>asyncio.gather(*tasks)\<close>: when every task returns, the results come back in the order
  of the tasks. When a task raises, the first exception to occur is raised to the caller.
  Which one occurs first depends on the order in which the tasks complete; that order is
  the parameter \<open>completion\<close>, a list of task positions (positions it does not mention
  complete afterwards, in launch order).
\<close>

definition raised :: "(exn + 'a) list \<Rightarrow> nat list \<Rightarrow> exn list" where
  "raised tasks order =
     concat (map (\<lambda>i. if i < length tasks
                       then (case tasks ! i of Inl e \<Rightarrow> [e] | Inr _ \<Rightarrow> [])
                       else []) order)"

definition returned :: "(exn + 'a) list \<Rightarrow> 'a list" where
  "returned tasks = concat (map (\<lambda>t. case t of Inl _ \<Rightarrow> [] | Inr x \<Rightarrow> [x]) tasks)"

definition gather :: "nat list \<Rightarrow> (exn + 'a) list \<Rightarrow> exn + 'a list" where
  "gather completion tasks =
     (case raised tasks (completion @ [0..<length tasks]) of
        [] \<Rightarrow> Inr (returned tasks)
      | e # _ \<Rightarrow> Inl e)"

text \<open>
  The loop \<open>for i in itertools.count(start=1, step=step)\<close> of \<open>get_assets_from_messari\<close>.
  It has no bound, so it is a partial function: \<open>None\<close> means that it never returns.
  Besides the outcome (an exception or the accumulated list) the model returns the pages
  for which a request was launched, in launch order.
\<close>

partial_function (option) fetch_batches ::
  "'a session \<Rightarrow> (nat \<Rightarrow> nat list) \<Rightarrow> nat \<Rightarrow> 'a list \<Rightarrow> nat list
     \<Rightarrow> (nat list \<times> (exn + 'a list)) option" where
  "fetch_batches session completion i all_asset_data launched =
     (let step = NUM_OF_CONCURRENT_SESSIONS;
          pages = [i..<i + step];
          tasks = map (get_one_page_asset_data_from_messari session) pages;
          launched' = launched @ pages
      in case gather (completion i) tasks of
           Inl e \<Rightarrow> Some (launched', Inl e)
         | Inr asset_data_gathered \<Rightarrow>
             (let all_asset_data' = all_asset_data @ concat asset_data_gathered
              in if list_ex (\<lambda>item. length item = 0) asset_data_gathered
                 then Some (launched', Inr all_asset_data')
                 else fetch_batches session completion (i + step) all_asset_data' launched'))"

declare fetch_batches.simps [code]

definition get_assets_from_messari ::
  "'a session \<Rightarrow> (nat \<Rightarrow> nat list) \<Rightarrow> (nat list \<times> (exn + 'a list)) option" where
  "get_assets_from_messari session completion = fetch_batches session completion 1 [] []"

section \<open>Assets and data frames\<close>

text \<open>
  One element of \<open>resp["data"]\<close>, with the fields the endpoint asks for. \<open>price_usd\<close> is
  \<open>asset["metrics"]["market_data"]["price_usd"]\<close> and \<open>rank\<close> is
  \<open>asset["metrics"]["marketcap"]["rank"]\<close>.
\<close>

record 'v asset =
  asset_id :: "'v cell"
  symbol :: "'v cell"
  name :: "'v cell"
  slug :: "'v cell"
  price_usd :: "'v cell"
  rank :: "'v cell"

text \<open>
  A pandas \<open>DataFrame\<close>: the column names in order and the rows in order, each row with
  its index label and its cells by column name.
\<close>

type_synonym 'v row = "(string, 'v cell) dict"

record 'v dataframe =
  columns :: "string list"
  rows :: "('v cell \<times> 'v row) list"

definition cell_of :: "('k, 'v cell) dict \<Rightarrow> 'k \<Rightarrow> 'v cell" where
  "cell_of d k = (case map_of d k of None \<Rightarrow> NaN | Some c \<Rightarrow> c)"

definition CSV_DEFAULT_FILENAME :: string where
  "CSV_DEFAULT_FILENAME = ''cryptocurrencies.csv''"

definition CSV_COLUMNS :: "string list" where
  "CSV_COLUMNS = [''ID'', ''Symbol'', ''Name'', ''Slug'', ''Price in USD'', ''Rank'']"

definition CSV_INDEX_COLUMN :: string where
  "CSV_INDEX_COLUMN = ''ID''"

text \<open>
  \<open>DataFrame.to_dict()\<close>: a dictionary from column name to the dictionary from index
  label to cell of that column.
\<close>

definition to_dict :: "'v dataframe \<Rightarrow> (string, ('v cell, 'v cell) dict) dict" where
  "to_dict df =
     dict_of (map (\<lambda>c. (c, dict_of (map (\<lambda>(label, r). (label, cell_of r c)) (rows df))))
                  (columns df))"

text \<open>
  The index of a frame built from dictionaries is the union of their keys in order of
  first appearance.
\<close>

definition append_new :: "'k list \<Rightarrow> 'k list \<Rightarrow> 'k list" where
  "append_new uniques vals = foldl (\<lambda>u val. if val \<in> set u then u else u @ [val]) uniques vals"

definition union_indexes :: "'k list list \<Rightarrow> 'k list" where
  "union_indexes indexes = foldl append_new [] indexes"

text \<open>
  \<open>DataFrame.from_dict(d)\<close>: one column per key; a label that a column's dictionary lacks
  gets \<open>NaN\<close> in that column.
\<close>

definition from_dict :: "(string, ('v cell, 'v cell) dict) dict \<Rightarrow> 'v dataframe" where
  "from_dict d =
     \<lparr>columns = keys d,
      rows = map (\<lambda>label. (label, map (\<lambda>(c, col). (c, cell_of col label)) d))
                 (union_indexes (map (\<lambda>(c, col). keys col) d))\<rparr>"

section \<open>Insert and update\<close>

text \<open>\<open>crypto_dict[column][index] = v\<close>, which raises when there is no such column.\<close>

definition setitem2 ::
  "(string, ('k, 'x) dict) dict \<Rightarrow> string \<Rightarrow> 'k \<Rightarrow> 'x \<Rightarrow> exn + (string, ('k, 'x) dict) dict" where
  "setitem2 d column index v =
     and_then (getitem d column) (\<lambda>col. Inr (setitem d column (setitem col index v)))"

definition update_crypto_dict_with_messari_asset ::
  "(string, ('v cell, 'v cell) dict) dict \<Rightarrow> nat \<Rightarrow> 'v asset
     \<Rightarrow> exn + (string, ('v cell, 'v cell) dict) dict" where
  "update_crypto_dict_with_messari_asset crypto_dict order asset =
     (let index = asset_id asset in
      and_then (setitem2 crypto_dict ''Order'' index (IntV (int order))) (\<lambda>d1.
      and_then (setitem2 d1 ''Symbol'' index (symbol asset)) (\<lambda>d2.
      and_then (setitem2 d2 ''Name'' index (name asset)) (\<lambda>d3.
      and_then (setitem2 d3 ''Slug'' index (slug asset)) (\<lambda>d4.
      and_then (setitem2 d4 ''Price in USD'' index (price_usd asset)) (\<lambda>d5.
      setitem2 d5 ''Rank'' index (rank asset)))))))"

text \<open>The loop \<open>for order, asset in enumerate(updated_assets)\<close>.\<close>

fun update_all ::
  "(string, ('v cell, 'v cell) dict) dict \<Rightarrow> (nat \<times> 'v asset) list
     \<Rightarrow> exn + (string, ('v cell, 'v cell) dict) dict" where
  "update_all crypto_dict [] = Inr crypto_dict"
| "update_all crypto_dict ((order, asset) # rest) =
     and_then (update_crypto_dict_with_messari_asset crypto_dict order asset)
              (\<lambda>d. update_all d rest)"

definition upsert_cryptocurrencies :: "'v dataframe \<Rightarrow> 'v asset list \<Rightarrow> exn + 'v dataframe" where
  "upsert_cryptocurrencies crypto_df updated_assets =
     (let crypto_dict = to_dict crypto_df;
          crypto_dict = setitem crypto_dict ''Order'' []
      in and_then (update_all crypto_dict (enumerate 0 updated_assets))
                  (\<lambda>d. Inr (from_dict d)))"

section \<open>Sorting\<close>

text \<open>
  \<open>df.sort_values(by=[column])\<close> with the defaults of pandas: ascending, rows whose key
  is \<open>NaN\<close> last and in their previous relative order. The model sorts integer keys. A key
  that is neither an integer nor \<open>NaN\<close> makes it raise, as the comparison of an integer
  with a string or \<open>None\<close> does in Python; columns without any integer, which pandas would
  sort by the order of their own type, are not covered. Rows with equal keys keep their
  relative order here; the default algorithm of pandas does not promise that.
\<close>

definition is_nan :: "'v cell \<Rightarrow> bool" where
  "is_nan c = (case c of NaN \<Rightarrow> True | _ \<Rightarrow> False)"

definition is_other :: "'v cell \<Rightarrow> bool" where
  "is_other c = (case c of Other _ \<Rightarrow> True | _ \<Rightarrow> False)"

definition int_of :: "'v cell \<Rightarrow> int" where
  "int_of c = (case c of IntV n \<Rightarrow> n | _ \<Rightarrow> 0)"

definition sort_values :: "string \<Rightarrow> 'v dataframe \<Rightarrow> exn + 'v dataframe" where
  "sort_values column df =
     (if column \<notin> set (columns df) then Inl (KeyError column)
      else if list_ex (\<lambda>(label, r). is_other (cell_of r column)) (rows df)
      then Inl (TypeError ''unorderable sort keys'')
      else Inr (df\<lparr>rows :=
             sort_key (\<lambda>(label, r). int_of (cell_of r column))
                      (filter (\<lambda>(label, r). \<not> is_nan (cell_of r column)) (rows df))
             @ filter (\<lambda>(label, r). is_nan (cell_of r column)) (rows df)\<rparr>))"

text \<open>\<open>df.drop(columns=[column])\<close>.\<close>

definition drop_column :: "string \<Rightarrow> 'v dataframe \<Rightarrow> exn + 'v dataframe" where
  "drop_column column df =
     (if column \<notin> set (columns df) then Inl (KeyError column)
      else Inr \<lparr>columns = filter (\<lambda>c. c \<noteq> column) (columns df),
                rows = map (\<lambda>(label, r). (label, filter (\<lambda>(c, x). c \<noteq> column) r)) (rows df)\<rparr>)"

text \<open>The frame is updated in place; the model returns the updated frame.\<close>

definition sort_cryptocurrencies :: "'v dataframe \<Rightarrow> exn + 'v dataframe" where
  "sort_cryptocurrencies crypto_df =
     and_then (sort_values ''Order'' crypto_df) (drop_column ''Order'')"

section \<open>The csv file and the main program\<close>

text \<open>
  The text format of the file is left to pandas. A file is represented by the table
  \<open>pd.read_csv\<close> returns for it: the header and the records, each record with its cells
  by column name. Cells are taken to be written and read back unchanged. The file system
  maps the names of the existing files to their contents.
\<close>

record 'v csv =
  header :: "string list"
  records :: "'v row list"

type_synonym 'v files = "string \<Rightarrow> 'v csv option"

text \<open>\<open>pd.read_csv\<close> labels the rows \<open>0, 1, 2, ...\<close>.\<close>

definition read_csv :: "'v csv \<Rightarrow> 'v dataframe" where
  "read_csv file =
     \<lparr>columns = header file,
      rows = map (\<lambda>(i, r). (IntV (int i), r)) (enumerate 0 (records file))\<rparr>"

text \<open>\<open>df.set_index(column)\<close>: the column becomes the index and is no longer a column.\<close>

definition set_index :: "string \<Rightarrow> 'v dataframe \<Rightarrow> exn + 'v dataframe" where
  "set_index column df =
     (if column \<notin> set (columns df) then Inl (KeyError column)
      else Inr \<lparr>columns = filter (\<lambda>c. c \<noteq> column) (columns df),
                rows = map (\<lambda>(label, r). (cell_of r column, filter (\<lambda>(c, x). c \<noteq> column) r))
                           (rows df)\<rparr>)"

definition read_cryptocurrencies_from_csv :: "'v files \<Rightarrow> string \<Rightarrow> exn + 'v dataframe" where
  "read_cryptocurrencies_from_csv files filename =
     (let crypto_df = (case files filename of
                         Some file \<Rightarrow> read_csv file
                       | None \<Rightarrow> \<lparr>columns = CSV_COLUMNS, rows = []\<rparr>)
      in set_index CSV_INDEX_COLUMN crypto_df)"

text \<open>\<open>df.to_csv(filename, index=True, index_label=label)\<close>.\<close>

definition to_csv :: "string \<Rightarrow> 'v dataframe \<Rightarrow> 'v csv" where
  "to_csv index_label df =
     \<lparr>header = index_label # columns df,
      records = map (\<lambda>(label, r). (index_label, label) # r) (rows df)\<rparr>"

definition save_cryptocurrencies_to_csv :: "'v files \<Rightarrow> 'v dataframe \<Rightarrow> string \<Rightarrow> 'v files" where
  "save_cryptocurrencies_to_csv files crypto_df filename =
     files(filename \<mapsto> to_csv CSV_INDEX_COLUMN crypto_df)"

text \<open>
  The main program, from the command line, the session and the files to the files it
  leaves and how it ends: with an uncaught exception or normally. \<open>None\<close> means that it
  does not end.
\<close>

definition main ::
  "string list \<Rightarrow> 'v asset session \<Rightarrow> (nat \<Rightarrow> nat list) \<Rightarrow> 'v files
     \<Rightarrow> ('v files \<times> (exn + unit)) option" where
  "main argv session completion files =
     (let csv_filename = (if length argv = 2 then argv ! 1 else CSV_DEFAULT_FILENAME)
      in case get_assets_from_messari session completion of
           None \<Rightarrow> None
         | Some (launched, Inl e) \<Rightarrow> Some (files, Inl e)
         | Some (launched, Inr assets) \<Rightarrow>
             (case and_then (read_cryptocurrencies_from_csv files csv_filename) (\<lambda>df.
                   and_then (upsert_cryptocurrencies df assets) sort_cryptocurrencies) of
                Inl e \<Rightarrow> Some (files, Inl e)
              | Inr df \<Rightarrow> Some (save_cryptocurrencies_to_csv files df csv_filename, Inr ())))"

section \<open>Auxiliary notions\<close>

text \<open>
  The notions below are not functions of the program. They name, for the proofs, what
  its loops compute: the column a frame contributes to \<open>to_dict\<close>, a column after the
  updates of all fetched assets, and the rows and the row order of the sorted frame.
\<close>

definition prior_col :: "'v dataframe \<Rightarrow> string \<Rightarrow> ('v cell, 'v cell) dict" where
  "prior_col df c = dict_of (map (\<lambda>(label, r). (label, cell_of r c)) (rows df))"

definition put_all ::
  "(nat \<Rightarrow> 'v asset \<Rightarrow> 'v cell) \<Rightarrow> ('v cell, 'v cell) dict \<Rightarrow> (nat \<times> 'v asset) list
     \<Rightarrow> ('v cell, 'v cell) dict" where
  "put_all f d xs = foldl (\<lambda>d (order, asset). setitem d (asset_id asset) (f order asset)) d xs"

definition merged_col ::
  "(nat \<Rightarrow> 'v asset \<Rightarrow> 'v cell) \<Rightarrow> string \<Rightarrow> 'v dataframe \<Rightarrow> 'v asset list
     \<Rightarrow> ('v cell, 'v cell) dict" where
  "merged_col f c df assets = put_all f (prior_col df c) (enumerate 0 assets)"

definition order_col :: "'v asset list \<Rightarrow> ('v cell, 'v cell) dict" where
  "order_col assets = put_all (\<lambda>order asset. IntV (int order)) [] (enumerate 0 assets)"

definition value_row :: "'v dataframe \<Rightarrow> 'v asset list \<Rightarrow> 'v cell \<Rightarrow> 'v row" where
  "value_row df assets label =
     [(''Symbol'', cell_of (merged_col (\<lambda>order. symbol) ''Symbol'' df assets) label),
      (''Name'', cell_of (merged_col (\<lambda>order. name) ''Name'' df assets) label),
      (''Slug'', cell_of (merged_col (\<lambda>order. slug) ''Slug'' df assets) label),
      (''Price in USD'', cell_of (merged_col (\<lambda>order. price_usd) ''Price in USD'' df assets) label),
      (''Rank'', cell_of (merged_col (\<lambda>order. rank) ''Rank'' df assets) label)]"

definition merged_index :: "'v dataframe \<Rightarrow> 'v asset list \<Rightarrow> 'v cell list" where
  "merged_index df assets =
     append_new (append_new [] (map fst (rows df))) (map asset_id assets)"

definition sorted_index :: "'v dataframe \<Rightarrow> 'v asset list \<Rightarrow> 'v cell list" where
  "sorted_index df assets =
     sort_key (\<lambda>label. int_of (cell_of (order_col assets) label))
              (filter (\<lambda>label. label \<in> set (map asset_id assets)) (merged_index df assets))
     @ filter (\<lambda>label. label \<notin> set (map asset_id assets)) (merged_index df assets)"

section \<open>Concurrent requests and single batches\<close>

lemma raised_map_Inr: "raised (map Inr xs) ord = []"
  by (auto simp: raised_def)

lemma returned_map_Inr: "returned (map Inr xs) = xs"
  by (induction xs) (simp_all add: returned_def)

lemma gather_map_Inr: "gather completion (map Inr xs) = Inr xs"
  by (simp add: gather_def raised_map_Inr returned_map_Inr)

lemma raised_append: "raised tasks (xs @ ys) = raised tasks xs @ raised tasks ys"
  by (simp add: raised_def)

lemma raised_set: "set (raised tasks ord) \<subseteq> {e. Inl e \<in> set tasks}"
  by (auto simp: raised_def split: sum.splits if_splits)

lemma raised_upt_nonempty:
  assumes "Inl e \<in> set tasks"
  shows "raised tasks [0..<length tasks] \<noteq> []"
proof -
  from assms obtain i where i: "i < length tasks" "tasks ! i = Inl e"
    by (auto simp: in_set_conv_nth)
  then have "e \<in> set (raised tasks [0..<length tasks])"
    by (auto simp: raised_def intro!: bexI [of _ i])
  then show ?thesis by auto
qed

lemma gather_raises:
  assumes "Inl e \<in> set tasks"
  shows "\<exists>e'. gather completion tasks = Inl e' \<and> Inl e' \<in> set tasks"
proof -
  let ?r = "raised tasks (completion @ [0..<length tasks])"
  have "?r \<noteq> []"
    using raised_upt_nonempty [OF assms] by (simp add: raised_append)
  then obtain e' es where r: "?r = e' # es" by (cases ?r) auto
  then have "e' \<in> set ?r" by simp
  then have "Inl e' \<in> set tasks" using raised_set [of tasks] by blast
  moreover have "gather completion tasks = Inl e'" by (simp add: gather_def r)
  ultimately show ?thesis by blast
qed

lemma all_Inr_map:
  assumes "\<And>e. Inl e \<notin> set tasks"
  shows "\<exists>ys. tasks = map Inr ys"
  using assms
proof (induction tasks)
  case Nil
  then show ?case by simp
next
  case (Cons t ts)
  have "\<And>e. Inl e \<notin> set ts" using Cons.prems by simp
  then obtain ys where ys: "ts = map Inr ys" using Cons.IH by blast
  obtain x where x: "t = Inr x" using Cons.prems [of "projl t"] by (cases t) auto
  have "t # ts = map Inr (x # ys)" by (simp add: x ys)
  then show ?case by (rule exI)
qed

lemma gather_Inr_iff: "gather completion tasks = Inr xs \<longleftrightarrow> tasks = map Inr xs"
proof
  assume g: "gather completion tasks = Inr xs"
  have no: "\<And>e. Inl e \<notin> set tasks"
  proof
    fix e assume "Inl e \<in> set tasks"
    then obtain e' where "gather completion tasks = Inl e'"
      using gather_raises [of e tasks completion] by blast
    with g show False by simp
  qed
  obtain ys where ys: "tasks = map Inr ys"
    using all_Inr_map [OF no] by blast
  have "gather completion (map Inr ys) = Inr ys"
    by (rule gather_map_Inr)
  with g ys have "ys = xs" by simp
  with ys show "tasks = map Inr xs" by simp
next
  assume "tasks = map Inr xs" then show "gather completion tasks = Inr xs"
    by (simp add: gather_map_Inr)
qed

lemma fetch_batches_raise:
  assumes "Inl e \<in> get_one_page_asset_data_from_messari session ` {i..<i + 7}"
  shows "\<exists>e'. fetch_batches session completion i acc launched
            = Some (launched @ [i..<i + 7], Inl e')"
proof -
  let ?tasks = "map (get_one_page_asset_data_from_messari session) [i..<i + 7]"
  have "Inl e \<in> set ?tasks" using assms by simp
  then obtain e' where "gather (completion i) ?tasks = Inl e'"
    using gather_raises [of e ?tasks "completion i"] by blast
  then have "fetch_batches session completion i acc launched
            = Some (launched @ [i..<i + 7], Inl e')"
    by (subst fetch_batches.simps) (simp add: NUM_OF_CONCURRENT_SESSIONS_def Let_def)
  then show ?thesis by blast
qed

lemma fetch_batches_stop:
  assumes "\<And>p. i \<le> p \<Longrightarrow> p < i + 7 \<Longrightarrow> get_one_page_asset_data_from_messari session p = Inr (pg p)"
    and "\<exists>p. i \<le> p \<and> p < i + 7 \<and> pg p = []"
  shows "fetch_batches session completion i acc launched
           = Some (launched @ [i..<i + 7], Inr (acc @ concat (map pg [i..<i + 7])))"
proof -
  have tasks: "map (get_one_page_asset_data_from_messari session) [i..<i + 7]
                 = map Inr (map pg [i..<i + 7])"
    using assms(1) by simp
  have ex: "list_ex (\<lambda>item. length item = 0) (map pg [i..<i + 7])"
  proof -
    from assms(2) obtain p where "i \<le> p" "p < i + 7" "pg p = []" by blast
    then have "p \<in> set [i..<i + 7] \<and> length (pg p) = 0" by simp
    then show ?thesis unfolding list_ex_iff set_map by blast
  qed
  show ?thesis
    by (subst fetch_batches.simps)
       (simp only: NUM_OF_CONCURRENT_SESSIONS_def Let_def tasks gather_map_Inr sum.case ex if_True)
qed

lemma fetch_batches_continue:
  assumes "\<And>p. i \<le> p \<Longrightarrow> p < i + 7 \<Longrightarrow> get_one_page_asset_data_from_messari session p = Inr (pg p)"
    and "\<And>p. i \<le> p \<Longrightarrow> p < i + 7 \<Longrightarrow> pg p \<noteq> []"
  shows "fetch_batches session completion i acc launched
           = fetch_batches session completion (i + 7) (acc @ concat (map pg [i..<i + 7]))
               (launched @ [i..<i + 7])"
proof -
  have tasks: "map (get_one_page_asset_data_from_messari session) [i..<i + 7]
                 = map Inr (map pg [i..<i + 7])"
    using assms(1) by simp
  have ex: "\<not> list_ex (\<lambda>item. length item = 0) (map pg [i..<i + 7])"
  proof
    assume "list_ex (\<lambda>item. length item = 0) (map pg [i..<i + 7])"
    then obtain p where "p \<in> set [i..<i + 7]" "length (pg p) = 0"
      unfolding list_ex_iff set_map by blast
    then show False using assms(2) [of p] by simp
  qed
  show ?thesis
    by (subst fetch_batches.simps)
       (simp only: NUM_OF_CONCURRENT_SESSIONS_def Let_def tasks gather_map_Inr sum.case ex if_False)
qed

lemma fetch_batches_run:
  assumes "\<And>p. i \<le> p \<Longrightarrow> p < i + 7 * Suc n
             \<Longrightarrow> get_one_page_asset_data_from_messari session p = Inr (pg p)"
    and "\<And>p. i \<le> p \<Longrightarrow> p < i + 7 * n \<Longrightarrow> pg p \<noteq> []"
    and "\<exists>p. i + 7 * n \<le> p \<and> p < i + 7 * Suc n \<and> pg p = []"
  shows "fetch_batches session completion i acc launched
           = Some (launched @ [i..<i + 7 * Suc n],
                   Inr (acc @ concat (map pg [i..<i + 7 * Suc n])))"
  using assms
proof (induction n arbitrary: i acc launched)
  case 0
  then show ?case
    using fetch_batches_stop [of i session pg completion acc launched] by simp
next
  case (Suc n)
  have step: "fetch_batches session completion i acc launched
           = fetch_batches session completion (i + 7) (acc @ concat (map pg [i..<i + 7]))
               (launched @ [i..<i + 7])"
    using Suc.prems(1,2) by (intro fetch_batches_continue) simp_all
  have rest: "fetch_batches session completion (i + 7) (acc @ concat (map pg [i..<i + 7]))
               (launched @ [i..<i + 7])
           = Some ((launched @ [i..<i + 7]) @ [i + 7..<i + 7 + 7 * Suc n],
                   Inr ((acc @ concat (map pg [i..<i + 7]))
                        @ concat (map pg [i + 7..<i + 7 + 7 * Suc n])))"
  proof (rule Suc.IH)
    fix p assume "i + 7 \<le> p" "p < i + 7 + 7 * Suc n"
    then show "get_one_page_asset_data_from_messari session p = Inr (pg p)"
      using Suc.prems(1) [of p] by simp
  next
    fix p assume "i + 7 \<le> p" "p < i + 7 + 7 * n"
    then show "pg p \<noteq> []" using Suc.prems(2) [of p] by simp
  next
    from Suc.prems(3) obtain p where "i + 7 * Suc n \<le> p" "p < i + 7 * Suc (Suc n)" "pg p = []"
      by blast
    then have "i + 7 + 7 * n \<le> p \<and> p < i + 7 + 7 * Suc n \<and> pg p = []" by simp
    then show "\<exists>p. i + 7 + 7 * n \<le> p \<and> p < i + 7 + 7 * Suc n \<and> pg p = []" by blast
  qed
  have split: "[i..<i + 7 * Suc (Suc n)] = [i..<i + 7] @ [i + 7..<i + 7 + 7 * Suc n]"
    using upt_add_eq_append [of i "i + 7" "7 * Suc n"] by (simp add: add.assoc)
  show ?case by (simp only: step rest split map_append concat_append append_assoc)
qed

section \<open>Runs of the pagination loop\<close>

lemma fetch_batches_returns_only_after_end:
  assumes "fetch_batches session completion i acc launched = Some y"
  shows "\<exists>p\<ge>i. \<forall>x. get_one_page_asset_data_from_messari session p = Inr x \<longrightarrow> x = []"
proof (rule fetch_batches.raw_induct
    [where P = "\<lambda>session completion i acc launched y.
         \<exists>p\<ge>i. \<forall>x. get_one_page_asset_data_from_messari session p = Inr x \<longrightarrow> x = []",
     OF _ assms], goal_cases)
  case (1 f session completion i acc launched y)
  let ?fetch = "get_one_page_asset_data_from_messari session"
  let ?tasks = "map ?fetch [i..<i + 7]"
  show ?case
  proof (cases "gather (completion i) ?tasks")
    case (Inl e)
    have "\<not> (\<exists>xs. ?tasks = map Inr xs)"
    proof
      assume "\<exists>xs. ?tasks = map Inr xs"
      then obtain xs where "?tasks = map Inr xs" ..
      then have "gather (completion i) ?tasks = Inr xs" by (simp only: gather_map_Inr)
      with Inl show False by simp
    qed
    then obtain e' where "Inl e' \<in> set ?tasks"
      using all_Inr_map [of ?tasks] by blast
    then obtain p where "i \<le> p" "?fetch p = Inl e'" by auto
    then have "i \<le> p \<and> (\<forall>x. ?fetch p = Inr x \<longrightarrow> x = [])" by simp
    then show ?thesis by blast
  next
    case (Inr pages)
    then have tasks: "?tasks = map Inr pages" by (simp add: gather_Inr_iff)
    show ?thesis
    proof (cases "list_ex (\<lambda>item. length item = 0) pages")
      case True
      then have "[] \<in> set pages" by (auto simp: list_ex_iff)
      then have "Inr [] \<in> set ?tasks" unfolding tasks by simp
      then obtain p where "i \<le> p" "?fetch p = Inr []" by auto
      then have "i \<le> p \<and> (\<forall>x. ?fetch p = Inr x \<longrightarrow> x = [])" by simp
      then show ?thesis by blast
    next
      case False
      with 1(2) Inr have "f session completion (i + 7) (acc @ concat pages)
                            (launched @ [i..<i + 7]) = Some y"
        by (simp add: NUM_OF_CONCURRENT_SESSIONS_def Let_def)
      from 1(1) [OF this] obtain p
        where "i + 7 \<le> p" "\<forall>x. ?fetch p = Inr x \<longrightarrow> x = []" by blast
      then have "i \<le> p \<and> (\<forall>x. ?fetch p = Inr x \<longrightarrow> x = [])" by simp
      then show ?thesis by blast
    qed
  qed
qed

lemma fetch_batches_never_returns:
  assumes "\<And>p. i \<le> p \<Longrightarrow> \<exists>x. get_one_page_asset_data_from_messari session p = Inr x \<and> x \<noteq> []"
  shows "fetch_batches session completion i acc launched = None"
proof (cases "fetch_batches session completion i acc launched")
  case None
  then show ?thesis .
next
  case (Some y)
  from fetch_batches_returns_only_after_end [OF this] obtain p
    where "i \<le> p" "\<forall>x. get_one_page_asset_data_from_messari session p = Inr x \<longrightarrow> x = []"
    by blast
  with assms [of p] show ?thesis by auto
qed

lemma fetch_batches_run_raise:
  assumes "\<And>p. i \<le> p \<Longrightarrow> p < i + 7 * n
             \<Longrightarrow> get_one_page_asset_data_from_messari session p = Inr (pg p)"
    and "\<And>p. i \<le> p \<Longrightarrow> p < i + 7 * n \<Longrightarrow> pg p \<noteq> []"
    and "\<exists>p. i + 7 * n \<le> p \<and> p < i + 7 * Suc n
             \<and> get_one_page_asset_data_from_messari session p = Inl e"
  shows "\<exists>e'. fetch_batches session completion i acc launched
           = Some (launched @ [i..<i + 7 * Suc n], Inl e')"
  using assms
proof (induction n arbitrary: i acc launched)
  case 0
  from "0.prems"(3) obtain p where "i \<le> p" "p < i + 7"
    "get_one_page_asset_data_from_messari session p = Inl e" by auto
  then have "Inl e \<in> get_one_page_asset_data_from_messari session ` {i..<i + 7}"
    by (metis atLeastLessThan_iff imageI)
  from fetch_batches_raise [OF this] show ?case by simp
next
  case (Suc n)
  have step: "fetch_batches session completion i acc launched
           = fetch_batches session completion (i + 7) (acc @ concat (map pg [i..<i + 7]))
               (launched @ [i..<i + 7])"
    using Suc.prems(1,2) by (intro fetch_batches_continue) simp_all
  have "\<exists>e'. fetch_batches session completion (i + 7) (acc @ concat (map pg [i..<i + 7]))
               (launched @ [i..<i + 7])
           = Some ((launched @ [i..<i + 7]) @ [i + 7..<i + 7 + 7 * Suc n], Inl e')"
  proof (rule Suc.IH)
    fix p assume "i + 7 \<le> p" "p < i + 7 + 7 * n"
    then show "get_one_page_asset_data_from_messari session p = Inr (pg p)"
      using Suc.prems(1) [of p] by simp
  next
    fix p assume "i + 7 \<le> p" "p < i + 7 + 7 * n"
    then show "pg p \<noteq> []" using Suc.prems(2) [of p] by simp
  next
    from Suc.prems(3) obtain p where "i + 7 * Suc n \<le> p" "p < i + 7 * Suc (Suc n)"
      "get_one_page_asset_data_from_messari session p = Inl e"
      by blast
    then have "i + 7 + 7 * n \<le> p \<and> p < i + 7 + 7 * Suc n
        \<and> get_one_page_asset_data_from_messari session p = Inl e" by simp
    then show "\<exists>p. i + 7 + 7 * n \<le> p \<and> p < i + 7 + 7 * Suc n
        \<and> get_one_page_asset_data_from_messari session p = Inl e" by blast
  qed
  then obtain e' where rest: "fetch_batches session completion (i + 7)
               (acc @ concat (map pg [i..<i + 7])) (launched @ [i..<i + 7])
           = Some ((launched @ [i..<i + 7]) @ [i + 7..<i + 7 + 7 * Suc n], Inl e')" ..
  have split: "[i..<i + 7 * Suc (Suc n)] = [i..<i + 7] @ [i + 7..<i + 7 + 7 * Suc n]"
    using upt_add_eq_append [of i "i + 7" "7 * Suc n"] by (simp add: add.assoc)
  have "fetch_batches session completion i acc launched
           = Some (launched @ [i..<i + 7 * Suc (Suc n)], Inl e')"
    by (simp only: step rest split append_assoc)
  then show ?case ..
qed

lemma map_nth_pages: "map (\<lambda>p. ps ! (p - 1)) [1..<Suc (length ps)] = ps"
proof -
  have "[1..<Suc (length ps)] = map Suc [0..<length ps]"
    by (simp only: map_Suc_upt One_nat_def)
  then have "map (\<lambda>p. ps ! (p - 1)) [1..<Suc (length ps)] = map (\<lambda>i. ps ! i) [0..<length ps]"
    by (simp add: comp_def)
  then show ?thesis by (simp only: map_nth)
qed

lemma concat_map_empty: "(\<And>p. p \<in> set xs \<Longrightarrow> f p = []) \<Longrightarrow> concat (map f xs) = []"
  by (induction xs) simp_all

lemma concat_pages_upto:
  assumes "length ps < m"
  shows "concat (map (\<lambda>p. if p \<le> length ps then ps ! (p - 1) else []) [1..<m]) = concat ps"
proof -
  let ?pg = "\<lambda>p. if p \<le> length ps then ps ! (p - 1) else []"
  obtain k where k: "m = Suc (length ps) + k"
    using assms by (metis less_iff_Suc_add add_Suc)
  have split: "[1..<m] = [1..<Suc (length ps)] @ [Suc (length ps)..<m]"
    unfolding k by (rule upt_add_eq_append) simp
  have a: "map ?pg [1..<Suc (length ps)] = ps"
  proof -
    have "map ?pg [1..<Suc (length ps)] = map (\<lambda>p. ps ! (p - 1)) [1..<Suc (length ps)]"
      by (rule map_cong) (simp_all del: upt_Suc)
    then show ?thesis by (simp only: map_nth_pages)
  qed
  have b: "concat (map ?pg [Suc (length ps)..<m]) = []"
    by (rule concat_map_empty) simp
  show ?thesis by (simp only: split map_append concat_append a b append_Nil2)
qed

lemma get_assets_pages:
  assumes fetched: "\<And>p. 1 \<le> p \<Longrightarrow> p \<le> length ps
             \<Longrightarrow> get_one_page_asset_data_from_messari session p = Inr (ps ! (p - 1))"
    and past: "\<And>p. length ps < p \<Longrightarrow> get_one_page_asset_data_from_messari session p = Inr []"
    and full: "\<And>q. q \<in> set (butlast ps) \<Longrightarrow> q \<noteq> []"
  shows "\<exists>n. \<forall>completion. get_assets_from_messari session completion
           = Some ([1..<8 + 7 * n], Inr (concat ps))"
proof -
  let ?pg = "\<lambda>p. if p \<le> length ps then ps ! (p - 1) else []"
  define e where "e = (if ps \<noteq> [] \<and> last ps = [] then length ps else Suc (length ps))"
  define n where "n = (e - 1) div 7"
  have e_pos: "1 \<le> e" by (cases ps) (simp_all add: e_def)
  have e_ge: "length ps \<le> e" by (simp add: e_def)
  have e_empty: "?pg e = []"
    by (auto simp: e_def last_conv_nth)
  have lo: "1 + 7 * n \<le> e" using e_pos by (simp add: n_def)
  have hi: "e < 1 + 7 * Suc n" using e_pos by (simp add: n_def)
  have before: "?pg p \<noteq> []" if "1 \<le> p" "p < e" for p
  proof (cases "p < length ps")
    case True
    with that(1) have lt: "p - 1 < length (butlast ps)" by simp
    have "butlast ps ! (p - 1) \<in> set (butlast ps)" using lt by (rule nth_mem)
    moreover have "butlast ps ! (p - 1) = ps ! (p - 1)" using lt by (rule nth_butlast)
    ultimately have "ps ! (p - 1) \<in> set (butlast ps)" by (simp only:)
    then show ?thesis using True full by simp
  next
    case False
    with that have p: "p = length ps" "\<not> (ps \<noteq> [] \<and> last ps = [])"
      by (auto simp: e_def split: if_splits)
    with that(1) have "ps \<noteq> []" by auto
    with p have "last ps \<noteq> []" by simp
    then show ?thesis using p \<open>ps \<noteq> []\<close> by (simp add: last_conv_nth)
  qed
  have run: "fetch_batches session completion 1 [] []
           = Some ([] @ [1..<1 + 7 * Suc n], Inr ([] @ concat (map ?pg [1..<1 + 7 * Suc n])))"
    for completion
  proof (rule fetch_batches_run)
    fix p :: nat assume "1 \<le> p"
    then show "get_one_page_asset_data_from_messari session p = Inr (?pg p)"
      using fetched [of p] past [of p] by simp
  next
    fix p assume "1 \<le> p" "p < 1 + 7 * n"
    with lo have "p < e" by linarith
    with \<open>1 \<le> p\<close> show "?pg p \<noteq> []" by (rule before)
  next
    from lo hi e_empty show "\<exists>p. 1 + 7 * n \<le> p \<and> p < 1 + 7 * Suc n \<and> ?pg p = []"
      by blast
  qed
  have "length ps < 1 + 7 * Suc n" using e_ge hi by linarith
  then have "concat (map ?pg [1..<1 + 7 * Suc n]) = concat ps"
    by (rule concat_pages_upto)
  with run have "\<forall>completion. get_assets_from_messari session completion
           = Some ([1..<8 + 7 * n], Inr (concat ps))"
    by (simp add: get_assets_from_messari_def)
  then show ?thesis ..
qed

section \<open>Properties of page fetching and pagination\<close>

text \<open>
  Claim C7. For every response to a single page fetch: with error code 404 in its status
  the fetch returns the empty list and does not fail; with any other error code it fails
  with the exception that carries the error message of the response; without an error
  code it returns the list of records of the response.
\<close>

theorem page_fetch_interprets_response:
  "(session endpoint = Inr resp \<and> error_code (status resp) = Some 404
      \<longrightarrow> get_one_page_asset_data_from_messari session endpoint = Inr [])
   \<and> (session endpoint = Inr resp \<and> error_code (status resp) = Some code \<and> code \<noteq> 404
        \<and> error_message (status resp) = Some msg
      \<longrightarrow> get_one_page_asset_data_from_messari session endpoint = Inl (Exception msg))
   \<and> (session endpoint = Inr resp \<and> error_code (status resp) = None \<and> data resp = Some d
      \<longrightarrow> get_one_page_asset_data_from_messari session endpoint = Inr d)"
  by (simp add: get_one_page_asset_data_from_messari_def)

theorem page_fetch_interprets_response_witness:
  "get_one_page_asset_data_from_messari
     (\<lambda>page. Inr \<lparr>status = \<lparr>error_code = Some 404, error_message = Some ''Not Found''\<rparr>,
                   data = None\<rparr>) 8 = (Inr [] :: exn + nat list)
   \<and> get_one_page_asset_data_from_messari
     (\<lambda>page. Inr \<lparr>status = \<lparr>error_code = Some 429, error_message = Some ''Too Many Requests''\<rparr>,
                   data = None\<rparr>) 1 = (Inl (Exception ''Too Many Requests'') :: exn + nat list)
   \<and> get_one_page_asset_data_from_messari
     (\<lambda>page. Inr \<lparr>status = \<lparr>error_code = None, error_message = None\<rparr>,
                   data = Some [page, page + 1]\<rparr>) 1 = Inr [1, 2::nat]"
proof -
  let ?r404 = "\<lparr>status = \<lparr>error_code = Some 404, error_message = Some ''Not Found''\<rparr>,
                 data = (None :: nat list option)\<rparr>"
  let ?r429 = "\<lparr>status = \<lparr>error_code = Some 429, error_message = Some ''Too Many Requests''\<rparr>,
                 data = (None :: nat list option)\<rparr>"
  let ?rok = "\<lparr>status = \<lparr>error_code = None, error_message = None\<rparr>,
                data = Some [1, 2::nat]\<rparr>"
  have a: "get_one_page_asset_data_from_messari (\<lambda>page. Inr ?r404) 8 = Inr []"
    using page_fetch_interprets_response [of "\<lambda>page. Inr ?r404" 8 ?r404] by simp
  have b: "get_one_page_asset_data_from_messari (\<lambda>page. Inr ?r429) 1
             = Inl (Exception ''Too Many Requests'')"
    using page_fetch_interprets_response
            [of "\<lambda>page. Inr ?r429" 1 ?r429 429 "''Too Many Requests''"] by simp
  have c: "get_one_page_asset_data_from_messari
             (\<lambda>page. Inr \<lparr>status = \<lparr>error_code = None, error_message = None\<rparr>,
                           data = Some [page, page + 1]\<rparr>) 1 = Inr [1, 2::nat]"
    using page_fetch_interprets_response
            [of "\<lambda>page. Inr \<lparr>status = \<lparr>error_code = None, error_message = None\<rparr>,
                                data = Some [page, page + 1]\<rparr>" 1 ?rok _ _ "[1, 2]"] by simp
  from a b c show ?thesis by blast
qed

text \<open>
  Claim C1. Let the remote collection be the pages \<open>ps\<close> (page \<open>p\<close> is \<open>ps ! (p - 1)\<close>, and a
  page past the last one comes back empty), every page before the last of full size and
  the last one shorter than that or empty. Then \<open>get_assets_from_messari\<close> returns the
  concatenation of the pages in ascending page order, its length is the sum of the sizes
  of the non-empty pages, and the result is the same for every completion order of the
  concurrent requests.
\<close>

theorem paginator_concatenates_pages_in_index_order:
  assumes "\<And>p. 1 \<le> p \<Longrightarrow> p \<le> length ps
             \<Longrightarrow> get_one_page_asset_data_from_messari session p = Inr (ps ! (p - 1))"
    and "\<And>p. length ps < p \<Longrightarrow> get_one_page_asset_data_from_messari session p = Inr []"
    and "\<And>q. q \<in> set (butlast ps) \<Longrightarrow> length q = page_size"
    and "0 < page_size"
    and "ps \<noteq> [] \<Longrightarrow> length (last ps) < page_size"
  shows "(\<exists>launched. get_assets_from_messari session completion
                        = Some (launched, Inr (concat ps)))
         \<and> length (concat ps) = sum_list (map length (filter (\<lambda>q. q \<noteq> []) ps))
         \<and> get_assets_from_messari session completion'
             = get_assets_from_messari session completion"
proof -
  have full: "\<And>q. q \<in> set (butlast ps) \<Longrightarrow> q \<noteq> []"
    using assms(3,4) by fastforce
  obtain n where r: "\<And>c. get_assets_from_messari session c
             = Some ([1..<8 + 7 * n], Inr (concat ps))"
    using get_assets_pages [of ps session, OF assms(1,2) full] by blast
  have len: "length (concat xs) = sum_list (map length (filter (\<lambda>q. q \<noteq> []) xs))"
    for xs :: "'a list list"
    by (induction xs) simp_all
  from r [of completion] r [of completion'] len [of ps] show ?thesis by simp
qed

theorem paginator_concatenates_pages_in_index_order_witness:
  "(\<exists>launched. get_assets_from_messari
        (\<lambda>p. if 1 \<le> p \<and> p \<le> 3
             then Inr \<lparr>status = \<lparr>error_code = None, error_message = None\<rparr>,
                       data = Some ([[10, 11], [20, 21], [30::nat]] ! (p - 1))\<rparr>
             else Inr \<lparr>status = \<lparr>error_code = Some 404, error_message = Some ''Not Found''\<rparr>,
                       data = None\<rparr>)
        (\<lambda>i. [6, 5, 4, 3, 2, 1, 0]) = Some (launched, Inr [10, 11, 20, 21, 30]))
   \<and> length (concat [[10, 11], [20, 21], [30::nat]]) = 5"
proof -
  let ?ps = "[[10, 11], [20, 21], [30::nat]]"
  let ?s = "\<lambda>p. if 1 \<le> p \<and> p \<le> 3
             then Inr \<lparr>status = \<lparr>error_code = None, error_message = None\<rparr>,
                       data = Some (?ps ! (p - 1))\<rparr>
             else Inr \<lparr>status = \<lparr>error_code = Some 404, error_message = Some ''Not Found''\<rparr>,
                       data = None\<rparr>"
  have h1: "\<And>p. 1 \<le> p \<Longrightarrow> p \<le> length ?ps
              \<Longrightarrow> get_one_page_asset_data_from_messari ?s p = Inr (?ps ! (p - 1))"
    by (simp add: get_one_page_asset_data_from_messari_def)
  have h2: "\<And>p. length ?ps < p \<Longrightarrow> get_one_page_asset_data_from_messari ?s p = Inr []"
    by (simp add: get_one_page_asset_data_from_messari_def)
  have h3: "\<And>q. q \<in> set (butlast ?ps) \<Longrightarrow> length q = 2" by auto
  have h4: "0 < (2::nat)" by simp
  have h5: "?ps \<noteq> [] \<Longrightarrow> length (last ?ps) < 2" by simp
  show ?thesis
    using paginator_concatenates_pages_in_index_order
            [of ?ps ?s 2 "\<lambda>i. [6, 5, 4, 3, 2, 1, 0]" "\<lambda>i. []", OF h1 h2 h3 h4 h5]
    by simp
qed

text \<open>
  Claim C2. The loop stops exactly at the first batch of seven pages that contains an
  empty page: if the batches before batch \<open>n\<close> hold no empty page and batch \<open>n\<close> holds one,
  the requests launched are those for the pages \<open>1, ..., 7 * (n + 1)\<close> and no other, and the
  output holds the records of all of them, also of the pages of the last batch that come
  after the empty one. Nothing is assumed about the pages beyond that batch. There is no
  bound on the number of pages: if no page is ever empty, the function never returns.
\<close>

theorem pagination_stops_at_first_batch_with_empty_page:
  "((\<forall>p. 1 \<le> p \<and> p < 8 + 7 * n
          \<longrightarrow> get_one_page_asset_data_from_messari session p = Inr (pg p))
     \<and> (\<forall>p. 1 \<le> p \<and> p < 1 + 7 * n \<longrightarrow> pg p \<noteq> [])
     \<and> (\<exists>p. 1 + 7 * n \<le> p \<and> p < 8 + 7 * n \<and> pg p = [])
    \<longrightarrow> get_assets_from_messari session completion
          = Some ([1..<8 + 7 * n], Inr (concat (map pg [1..<8 + 7 * n]))))
   \<and> ((\<forall>p\<ge>1. \<exists>x. get_one_page_asset_data_from_messari session p = Inr x \<and> x \<noteq> [])
    \<longrightarrow> get_assets_from_messari session completion = None)"
proof (intro conjI impI)
  assume h: "(\<forall>p. 1 \<le> p \<and> p < 8 + 7 * n
                 \<longrightarrow> get_one_page_asset_data_from_messari session p = Inr (pg p))
     \<and> (\<forall>p. 1 \<le> p \<and> p < 1 + 7 * n \<longrightarrow> pg p \<noteq> [])
     \<and> (\<exists>p. 1 + 7 * n \<le> p \<and> p < 8 + 7 * n \<and> pg p = [])"
  have "fetch_batches session completion 1 [] []
           = Some ([] @ [1..<1 + 7 * Suc n], Inr ([] @ concat (map pg [1..<1 + 7 * Suc n])))"
  proof (rule fetch_batches_run)
    fix p :: nat assume "1 \<le> p" "p < 1 + 7 * Suc n"
    then show "get_one_page_asset_data_from_messari session p = Inr (pg p)"
      using h by simp
  next
    fix p :: nat assume "1 \<le> p" "p < 1 + 7 * n"
    then show "pg p \<noteq> []" using h by simp
  next
    from h obtain p where "1 + 7 * n \<le> p" "p < 8 + 7 * n" "pg p = []" by blast
    then have "1 + 7 * n \<le> p \<and> p < 1 + 7 * Suc n \<and> pg p = []" by simp
    then show "\<exists>p. 1 + 7 * n \<le> p \<and> p < 1 + 7 * Suc n \<and> pg p = []" ..
  qed
  then show "get_assets_from_messari session completion
          = Some ([1..<8 + 7 * n], Inr (concat (map pg [1..<8 + 7 * n])))"
    by (simp add: get_assets_from_messari_def)
next
  assume "\<forall>p\<ge>1. \<exists>x. get_one_page_asset_data_from_messari session p = Inr x \<and> x \<noteq> []"
  then have "fetch_batches session completion 1 [] [] = None"
    by (intro fetch_batches_never_returns) simp
  then show "get_assets_from_messari session completion = None"
    by (simp add: get_assets_from_messari_def)
qed

theorem pagination_stops_at_first_batch_with_empty_page_witness:
  "get_assets_from_messari
      (\<lambda>p. if p < 15
           then Inr \<lparr>status = \<lparr>error_code = None, error_message = None\<rparr>,
                     data = Some (if p = 9 then [] else [p])\<rparr>
           else Inl (ClientError ''page beyond the last batch''))
      (\<lambda>i. [])
     = Some ([1, 2, 3, 4, 5, 6, 7, 8, 9, 10, 11, 12, 13, 14],
             Inr [1, 2, 3, 4, 5, 6, 7, 8, 10, 11, 12, 13, 14])
   \<and> get_assets_from_messari
      (\<lambda>p. Inr \<lparr>status = \<lparr>error_code = None, error_message = None\<rparr>, data = Some [p]\<rparr>)
      (\<lambda>i. []) = None"
proof -
  let ?pg = "\<lambda>p::nat. if p = 9 then [] else [p]"
  let ?s = "\<lambda>p. if p < 15
           then Inr \<lparr>status = \<lparr>error_code = None, error_message = None\<rparr>, data = Some (?pg p)\<rparr>
           else Inl (ClientError ''page beyond the last batch'')"
  let ?t = "\<lambda>p::nat. Inr \<lparr>status = \<lparr>error_code = None, error_message = None\<rparr>,
                          data = Some [p]\<rparr>"
  have h1: "(\<forall>p. 1 \<le> p \<and> p < 8 + 7 * 1
                 \<longrightarrow> get_one_page_asset_data_from_messari ?s p = Inr (?pg p))
     \<and> (\<forall>p. 1 \<le> p \<and> p < 1 + 7 * 1 \<longrightarrow> ?pg p \<noteq> [])
     \<and> (\<exists>p. 1 + 7 * 1 \<le> p \<and> p < 8 + 7 * 1 \<and> ?pg p = [])"
    by (auto simp: get_one_page_asset_data_from_messari_def)
  have h2: "\<forall>p\<ge>1. \<exists>x. get_one_page_asset_data_from_messari ?t p = Inr x \<and> x \<noteq> []"
    by (simp add: get_one_page_asset_data_from_messari_def)
  have a: "get_assets_from_messari ?s (\<lambda>i. [])
             = Some ([1..<8 + 7 * 1], Inr (concat (map ?pg [1..<8 + 7 * 1])))"
    using pagination_stops_at_first_batch_with_empty_page [of 1 ?s ?pg "\<lambda>i. []"] h1 by blast
  have b: "get_assets_from_messari ?t (\<lambda>i. []) = None"
    using pagination_stops_at_first_batch_with_empty_page [of 1 ?t ?pg "\<lambda>i. []"] h2 by blast
  have c: "[1..<8 + 7 * 1] = [1, 2, 3, 4, 5, 6, 7, 8, 9, 10, 11, 12, 13, 14::nat]"
    by code_simp
  from a b show ?thesis unfolding c by simp
qed

text \<open>
  Claim C8 says that a request which fails for a transient reason is tried again. The
  code sends one request per page: when the request for page 1 raises, the exception
  ends \<open>get_assets_from_messari\<close>, whatever a second request would have returned.
\<close>

theorem failed_request_is_not_retried:
  "get_assets_from_messari
      (\<lambda>p. if p = 1 then Inl (ClientError ''Connection timeout'')
           else Inr \<lparr>status = \<lparr>error_code = Some 404, error_message = Some ''Not Found''\<rparr>,
                     data = (None :: nat list option)\<rparr>)
      (\<lambda>i. [])
     = Some ([1, 2, 3, 4, 5, 6, 7], Inl (ClientError ''Connection timeout''))"
  by code_simp

section \<open>Dictionaries and index union\<close>

lemma keys_setitem:
  "keys (setitem d k v) = (if k \<in> set (keys d) then keys d else keys d @ [k])"
proof (induction d)
  case Nil
  then show ?case by (simp add: keys_def)
next
  case (Cons p d)
  obtain k' v' where p: "p = (k', v')" by (cases p)
  show ?case using Cons.IH by (auto simp: keys_def p)
qed

lemma map_of_setitem: "map_of (setitem d k v) = (map_of d)(k \<mapsto> v)"
  by (induction d) (auto simp: fun_eq_iff)

lemma cell_of_setitem:
  "cell_of (setitem d k v) k' = (if k' = k then v else cell_of d k')"
  by (simp add: cell_of_def map_of_setitem)

lemma append_new_Nil: "append_new u [] = u"
  by (simp add: append_new_def)

lemma append_new_Cons:
  "append_new u (x # xs) = append_new (if x \<in> set u then u else u @ [x]) xs"
  by (simp add: append_new_def)

lemma append_new_snoc:
  "append_new u (xs @ [x])
     = (if x \<in> set (append_new u xs) then append_new u xs else append_new u xs @ [x])"
  by (simp add: append_new_def)

lemma set_append_new: "set (append_new u xs) = set u \<union> set xs"
  by (induction xs arbitrary: u) (auto simp: append_new_Nil append_new_Cons)

lemma distinct_append_new: "distinct u \<Longrightarrow> distinct (append_new u xs)"
  by (induction xs arbitrary: u) (auto simp: append_new_Nil append_new_Cons)

lemma append_new_subset: "set xs \<subseteq> set u \<Longrightarrow> append_new u xs = u"
  by (induction xs arbitrary: u) (auto simp: append_new_Nil append_new_Cons)

lemma append_new_distinct: "distinct (u @ xs) \<Longrightarrow> append_new u xs = u @ xs"
  by (induction xs arbitrary: u) (auto simp: append_new_Nil append_new_Cons)

lemma filter_append_new:
  "filter (\<lambda>k. k \<notin> set xs) (append_new u xs) = filter (\<lambda>k. k \<notin> set xs) u"
proof (induction xs rule: rev_induct)
  case Nil
  then show ?case by (simp add: append_new_Nil)
next
  case (snoc x xs)
  have "filter (\<lambda>k. k \<notin> set (xs @ [x])) (append_new u (xs @ [x]))
          = filter (\<lambda>k. k \<noteq> x) (filter (\<lambda>k. k \<notin> set xs) (append_new u xs))"
    by (auto simp: append_new_snoc intro: filter_cong)
  also have "\<dots> = filter (\<lambda>k. k \<noteq> x) (filter (\<lambda>k. k \<notin> set xs) u)"
    by (simp only: snoc.IH)
  also have "\<dots> = filter (\<lambda>k. k \<notin> set (xs @ [x])) u"
    by (auto intro: filter_cong)
  finally show ?case .
qed

lemma keys_foldl_setitem:
  "keys (foldl (\<lambda>d (k, v). setitem d k v) d ps) = append_new (keys d) (map fst ps)"
  by (induction ps arbitrary: d)
     (auto simp: append_new_Nil append_new_Cons keys_setitem split: prod.splits)

lemma keys_dict_of: "keys (dict_of ps) = append_new [] (map fst ps)"
  using keys_foldl_setitem [of "[]" ps] by (simp add: dict_of_def keys_def)

lemma distinct_keys_dict_of: "distinct (keys (dict_of ps))"
  by (simp add: keys_dict_of distinct_append_new)

lemma foldl_setitem_distinct:
  "distinct (keys d @ map fst ps) \<Longrightarrow> foldl (\<lambda>d (k, v). setitem d k v) d ps = d @ ps"
proof (induction ps arbitrary: d)
  case Nil
  then show ?case by simp
next
  case (Cons p ps)
  obtain k v where p: "p = (k, v)" by (cases p)
  have notin: "k \<notin> set (keys d)" using Cons.prems by (auto simp: p)
  have s: "setitem d k v = d @ [(k, v)]"
    using notin by (induction d) (auto simp: keys_def)
  have "distinct (keys (d @ [(k, v)]) @ map fst ps)"
    using Cons.prems by (auto simp: p keys_def)
  from Cons.IH [OF this] show ?case by (simp add: p s)
qed

lemma dict_of_distinct: "distinct (map fst ps) \<Longrightarrow> dict_of ps = ps"
  using foldl_setitem_distinct [of "[]" ps] by (simp add: dict_of_def keys_def)

lemma map_of_foldl_setitem:
  "map_of (foldl (\<lambda>d (k, v). setitem d k v) d ps) = map_of d ++ map_of (rev ps)"
proof (induction ps arbitrary: d)
  case Nil
  then show ?case by simp
next
  case (Cons p ps)
  obtain k v where p: "p = (k, v)" by (cases p)
  show ?case
    by (simp add: p Cons.IH map_of_setitem map_add_upd_left fun_eq_iff map_add_def
             split: option.splits)
qed

lemma cell_of_dict_of_distinct:
  assumes "distinct (map fst ps)" "(k, v) \<in> set ps"
  shows "cell_of (dict_of ps) k = v"
  using assms by (simp add: dict_of_distinct cell_of_def)

section \<open>The merge and the sort\<close>

lemma to_dict_value_columns:
  assumes "columns df = [''Symbol'', ''Name'', ''Slug'', ''Price in USD'', ''Rank'']"
  shows "to_dict df =
     [(''Symbol'', prior_col df ''Symbol''), (''Name'', prior_col df ''Name''),
      (''Slug'', prior_col df ''Slug''), (''Price in USD'', prior_col df ''Price in USD''),
      (''Rank'', prior_col df ''Rank'')]"
proof -
  have "to_dict df = dict_of (map (\<lambda>c. (c, prior_col df c)) (columns df))"
    by (simp add: to_dict_def prior_col_def)
  also have "\<dots> = map (\<lambda>c. (c, prior_col df c)) (columns df)"
    by (rule dict_of_distinct) (simp add: assms comp_def)
  finally show ?thesis by (simp add: assms)
qed

lemma update_six_columns:
  "update_crypto_dict_with_messari_asset
     [(''Symbol'', s), (''Name'', n), (''Slug'', sl), (''Price in USD'', p), (''Rank'', r),
      (''Order'', ord)] order asset
   = Inr [(''Symbol'', setitem s (asset_id asset) (symbol asset)),
          (''Name'', setitem n (asset_id asset) (name asset)),
          (''Slug'', setitem sl (asset_id asset) (slug asset)),
          (''Price in USD'', setitem p (asset_id asset) (price_usd asset)),
          (''Rank'', setitem r (asset_id asset) (rank asset)),
          (''Order'', setitem ord (asset_id asset) (IntV (int order)))]"
  by (simp add: update_crypto_dict_with_messari_asset_def setitem2_def getitem_def
                and_then_def Let_def)

lemma put_all_Nil: "put_all f d [] = d"
  by (simp add: put_all_def)

lemma put_all_Cons:
  "put_all f d ((order, asset) # xs) = put_all f (setitem d (asset_id asset) (f order asset)) xs"
  by (simp add: put_all_def)

lemma put_all_snoc:
  "put_all f d (xs @ [(order, asset)])
     = setitem (put_all f d xs) (asset_id asset) (f order asset)"
  by (simp add: put_all_def)

lemma update_all_six_columns:
  "update_all
     [(''Symbol'', s), (''Name'', n), (''Slug'', sl), (''Price in USD'', p), (''Rank'', r),
      (''Order'', ord)] xs
   = Inr [(''Symbol'', put_all (\<lambda>order. symbol) s xs),
          (''Name'', put_all (\<lambda>order. name) n xs),
          (''Slug'', put_all (\<lambda>order. slug) sl xs),
          (''Price in USD'', put_all (\<lambda>order. price_usd) p xs),
          (''Rank'', put_all (\<lambda>order. rank) r xs),
          (''Order'', put_all (\<lambda>order asset. IntV (int order)) ord xs)]"
proof (induction xs arbitrary: s n sl p r ord)
  case Nil
  then show ?case by (simp add: put_all_Nil)
next
  case (Cons x xs)
  obtain order asset where x: "x = (order, asset)" by (cases x)
  show ?case
    by (simp only: x update_all.simps update_six_columns and_then_def sum.case Cons.IH
                   put_all_Cons)
qed

lemma upsert_value_columns:
  assumes "columns df = [''Symbol'', ''Name'', ''Slug'', ''Price in USD'', ''Rank'']"
  shows "upsert_cryptocurrencies df assets =
     Inr (from_dict
       [(''Symbol'', merged_col (\<lambda>order. symbol) ''Symbol'' df assets),
        (''Name'', merged_col (\<lambda>order. name) ''Name'' df assets),
        (''Slug'', merged_col (\<lambda>order. slug) ''Slug'' df assets),
        (''Price in USD'', merged_col (\<lambda>order. price_usd) ''Price in USD'' df assets),
        (''Rank'', merged_col (\<lambda>order. rank) ''Rank'' df assets),
        (''Order'', order_col assets)])"
proof -
  have d: "setitem (to_dict df) ''Order'' [] =
     [(''Symbol'', prior_col df ''Symbol''), (''Name'', prior_col df ''Name''),
      (''Slug'', prior_col df ''Slug''), (''Price in USD'', prior_col df ''Price in USD''),
      (''Rank'', prior_col df ''Rank''), (''Order'', [])]"
    by (simp add: to_dict_value_columns [OF assms])
  show ?thesis
    by (simp only: upsert_cryptocurrencies_def Let_def d update_all_six_columns and_then_def
                   sum.case merged_col_def order_col_def)
qed

lemma put_all_conv_foldl:
  "put_all f d xs
     = foldl (\<lambda>d (k, v). setitem d k v) d (map (\<lambda>(order, asset). (asset_id asset, f order asset)) xs)"
  by (simp add: put_all_def foldl_map case_prod_unfold)

lemma keys_put_all: "keys (put_all f d xs) = append_new (keys d) (map (\<lambda>(order, asset). asset_id asset) xs)"
proof -
  have "map fst (map (\<lambda>(order, asset). (asset_id asset, f order asset)) xs)
          = map (\<lambda>(order, asset). asset_id asset) xs"
    by (induction xs) auto
  then show ?thesis by (simp only: put_all_conv_foldl keys_foldl_setitem)
qed

lemma map_asset_id_enumerate:
  "map (\<lambda>(order, asset). asset_id asset) (enumerate n assets) = map asset_id assets"
  by (induction assets arbitrary: n) simp_all

lemma keys_prior_col: "keys (prior_col df c) = append_new [] (map fst (rows df))"
  by (simp add: prior_col_def keys_dict_of comp_def case_prod_unfold)

lemma keys_merged_col: "keys (merged_col f c df assets) = merged_index df assets"
  by (simp add: merged_col_def keys_put_all map_asset_id_enumerate keys_prior_col
                merged_index_def)

lemma keys_order_col: "keys (order_col assets) = append_new [] (map asset_id assets)"
proof -
  have "keys ([] :: ('a cell, 'a cell) dict) = []" by (simp add: keys_def)
  then show ?thesis by (simp only: order_col_def keys_put_all map_asset_id_enumerate)
qed

lemma distinct_merged_index: "distinct (merged_index df assets)"
  by (simp add: merged_index_def distinct_append_new)

lemma set_merged_index:
  "set (merged_index df assets) = fst ` set (rows df) \<union> asset_id ` set assets"
  by (simp add: merged_index_def set_append_new)

lemma union_indexes_merged:
  "union_indexes
     [merged_index df assets, merged_index df assets, merged_index df assets,
      merged_index df assets, merged_index df assets, append_new [] (map asset_id assets)]
   = merged_index df assets"
proof -
  let ?K = "merged_index df assets"
  have a: "append_new [] ?K = ?K"
    using append_new_distinct [of "[]" ?K] distinct_merged_index [of df assets] by simp
  have b: "append_new ?K ?K = ?K" by (rule append_new_subset) simp
  have c: "append_new ?K (append_new [] (map asset_id assets)) = ?K"
    by (rule append_new_subset) (auto simp: set_append_new set_merged_index)
  show ?thesis by (simp add: union_indexes_def a b c)
qed

lemma upsert_rows:
  assumes "columns df = [''Symbol'', ''Name'', ''Slug'', ''Price in USD'', ''Rank'']"
  shows "upsert_cryptocurrencies df assets =
     Inr \<lparr>columns = [''Symbol'', ''Name'', ''Slug'', ''Price in USD'', ''Rank'', ''Order''],
          rows = map (\<lambda>label. (label, value_row df assets label
                                   @ [(''Order'', cell_of (order_col assets) label)]))
                     (merged_index df assets)\<rparr>"
  by (simp add: upsert_value_columns [OF assms] from_dict_def keys_merged_col keys_order_col
                union_indexes_merged value_row_def)
     (simp add: keys_def)

lemma cell_of_put_all_other:
  "label \<notin> (\<lambda>(order, asset). asset_id asset) ` set xs
     \<Longrightarrow> cell_of (put_all f d xs) label = cell_of d label"
proof (induction xs rule: rev_induct)
  case Nil
  then show ?case by (simp add: put_all_Nil)
next
  case (snoc x xs)
  obtain order asset where x: "x = (order, asset)" by (cases x)
  from snoc.prems have "label \<noteq> asset_id asset"
    and "label \<notin> (\<lambda>(order, asset). asset_id asset) ` set xs"
    by (auto simp: x)
  then show ?case using snoc.IH by (simp add: x put_all_snoc cell_of_setitem)
qed

lemma cell_of_put_all_fetched:
  "label \<in> (\<lambda>(order, asset). asset_id asset) ` set xs
     \<Longrightarrow> cell_of (put_all f d xs) label = cell_of (put_all f d' xs) label"
proof (induction xs rule: rev_induct)
  case Nil
  then show ?case by simp
next
  case (snoc x xs)
  obtain order asset where x: "x = (order, asset)" by (cases x)
  show ?case
  proof (cases "label = asset_id asset")
    case True
    then show ?thesis by (simp add: x put_all_snoc cell_of_setitem)
  next
    case False
    with snoc.prems have "label \<in> (\<lambda>(order, asset). asset_id asset) ` set xs"
      by (auto simp: x)
    with False snoc.IH show ?thesis by (simp add: x put_all_snoc cell_of_setitem)
  qed
qed

lemma cell_of_put_all_last:
  assumes "asset_id asset \<notin> (\<lambda>(order, asset). asset_id asset) ` set post"
  shows "cell_of (put_all f d (pre @ (order, asset) # post)) (asset_id asset) = f order asset"
proof -
  have "put_all f d (pre @ (order, asset) # post)
          = put_all f (put_all f d (pre @ [(order, asset)])) post"
    by (simp add: put_all_def)
  then have "cell_of (put_all f d (pre @ (order, asset) # post)) (asset_id asset)
          = cell_of (put_all f d (pre @ [(order, asset)])) (asset_id asset)"
    using cell_of_put_all_other [OF assms] by simp
  then show ?thesis by (simp add: put_all_snoc cell_of_setitem)
qed

lemma set_enumerate_ids:
  "(\<lambda>(order, asset). asset_id asset) ` set (enumerate n assets) = asset_id ` set assets"
proof -
  have "set (map (\<lambda>(order, asset). asset_id asset) (enumerate n assets))
          = set (map asset_id assets)"
    by (simp only: map_asset_id_enumerate)
  then show ?thesis by (simp only: set_map)
qed

lemma order_cell_unranked:
  "label \<notin> asset_id ` set assets \<Longrightarrow> cell_of (order_col assets) label = NaN"
proof -
  assume "label \<notin> asset_id ` set assets"
  then have "label \<notin> (\<lambda>(order, asset). asset_id asset) ` set (enumerate 0 assets)"
    by (simp add: set_enumerate_ids)
  then have "cell_of (order_col assets) label = cell_of [] label"
    unfolding order_col_def by (rule cell_of_put_all_other)
  then show ?thesis by (simp add: cell_of_def)
qed

lemma order_cell_int_general:
  "label \<in> (\<lambda>(order, asset). asset_id asset) ` set xs
     \<Longrightarrow> \<exists>i. cell_of (put_all (\<lambda>order asset. IntV (int order)) d xs) label = IntV i"
proof (induction xs rule: rev_induct)
  case Nil
  then show ?case by simp
next
  case (snoc x xs)
  obtain order asset where x: "x = (order, asset)" by (cases x)
  show ?case
  proof (cases "label = asset_id asset")
    case True
    then show ?thesis by (simp add: x put_all_snoc cell_of_setitem)
  next
    case False
    with snoc.prems have "label \<in> (\<lambda>(order, asset). asset_id asset) ` set xs"
      by (auto simp: x)
    with False snoc.IH show ?thesis by (simp add: x put_all_snoc cell_of_setitem)
  qed
qed

lemma order_cell_ranked:
  assumes "label \<in> asset_id ` set assets"
  shows "\<exists>i. cell_of (order_col assets) label = IntV i"
proof -
  from assms have "label \<in> (\<lambda>(order, asset). asset_id asset) ` set (enumerate 0 assets)"
    by (simp add: set_enumerate_ids)
  then show ?thesis unfolding order_col_def by (rule order_cell_int_general)
qed

lemma is_nan_order_cell:
  "is_nan (cell_of (order_col assets) label) \<longleftrightarrow> label \<notin> asset_id ` set assets"
proof (cases "label \<in> asset_id ` set assets")
  case True
  from order_cell_ranked [OF this] show ?thesis using True by (auto simp: is_nan_def)
next
  case False
  from order_cell_unranked [OF this] show ?thesis using False by (simp add: is_nan_def)
qed

lemma not_other_order_cell: "\<not> is_other (cell_of (order_col assets) label)"
proof (cases "label \<in> asset_id ` set assets")
  case True
  from order_cell_ranked [OF this] show ?thesis by (auto simp: is_other_def)
next
  case False
  from order_cell_unranked [OF this] show ?thesis by (simp add: is_other_def)
qed

lemma insort_key_map:
  "insort_key f (g x) (map g xs) = map g (insort_key (\<lambda>x. f (g x)) x xs)"
  by (induction xs) simp_all

lemma sort_key_map: "sort_key f (map g xs) = map g (sort_key (\<lambda>x. f (g x)) xs)"
  by (induction xs) (simp_all add: insort_key_map)

lemma order_cell_of_row:
  "cell_of (value_row df assets label @ [(''Order'', x)]) ''Order'' = x"
  by (simp add: value_row_def cell_of_def)

lemma drop_order_of_row:
  "filter (\<lambda>(c, x). c \<noteq> ''Order'') (value_row df assets label) = value_row df assets label"
  by (simp add: value_row_def)

lemma upsert_then_sort:
  assumes "columns df = [''Symbol'', ''Name'', ''Slug'', ''Price in USD'', ''Rank'']"
  shows "and_then (upsert_cryptocurrencies df assets) sort_cryptocurrencies =
     Inr \<lparr>columns = [''Symbol'', ''Name'', ''Slug'', ''Price in USD'', ''Rank''],
          rows = map (\<lambda>label. (label, value_row df assets label)) (sorted_index df assets)\<rparr>"
proof -
  let ?K = "merged_index df assets"
  let ?g = "\<lambda>label. (label, value_row df assets label
                                   @ [(''Order'', cell_of (order_col assets) label)])"
  let ?M = "\<lparr>columns = [''Symbol'', ''Name'', ''Slug'', ''Price in USD'', ''Rank'', ''Order''],
             rows = map ?g ?K\<rparr>"
  let ?ids = "set (map asset_id assets)"
  have no_other: "\<not> list_ex (\<lambda>(label, r). is_other (cell_of r ''Order'')) (map ?g ?K)"
    by (simp add: list_ex_iff order_cell_of_row not_other_order_cell)
  have ranked: "filter (\<lambda>(label, r). \<not> is_nan (cell_of r ''Order'')) (map ?g ?K)
                  = map ?g (filter (\<lambda>label. label \<in> ?ids) ?K)"
    by (simp add: filter_map comp_def order_cell_of_row is_nan_order_cell)
  have unranked: "filter (\<lambda>(label, r). is_nan (cell_of r ''Order'')) (map ?g ?K)
                  = map ?g (filter (\<lambda>label. label \<notin> ?ids) ?K)"
    by (simp add: filter_map comp_def order_cell_of_row is_nan_order_cell)
  have sorted: "sort_key (\<lambda>(label, r). int_of (cell_of r ''Order''))
                         (map ?g (filter (\<lambda>label. label \<in> ?ids) ?K))
                  = map ?g (sort_key (\<lambda>label. int_of (cell_of (order_col assets) label))
                                     (filter (\<lambda>label. label \<in> ?ids) ?K))"
    by (simp add: sort_key_map order_cell_of_row)
  have sv: "sort_values ''Order'' ?M = Inr (?M\<lparr>rows := map ?g (sorted_index df assets)\<rparr>)"
    unfolding sort_values_def
    by (simp only: no_other ranked unranked sorted sorted_index_def map_append
                   dataframe.simps if_False)
       simp
  have dc: "drop_column ''Order'' (?M\<lparr>rows := map ?g (sorted_index df assets)\<rparr>)
              = Inr \<lparr>columns = [''Symbol'', ''Name'', ''Slug'', ''Price in USD'', ''Rank''],
                     rows = map (\<lambda>label. (label, value_row df assets label))
                                (sorted_index df assets)\<rparr>"
    by (simp add: drop_column_def comp_def drop_order_of_row)
  show ?thesis
    by (simp only: upsert_rows [OF assms] and_then_def sum.case sort_cryptocurrencies_def sv dc)
qed

lemma filter_eq_singleton: "distinct xs \<Longrightarrow> k \<in> set xs \<Longrightarrow> filter (\<lambda>x. x = k) xs = [k]"
proof (induction xs)
  case Nil
  then show ?case by simp
next
  case (Cons x xs)
  show ?case
  proof (cases "x = k")
    case True
    with Cons.prems have "k \<notin> set xs" by simp
    then have "filter (\<lambda>x. x = k) xs = []" by (auto simp: filter_empty_conv)
    with True show ?thesis by simp
  next
    case False
    with Cons show ?thesis by simp
  qed
qed

lemma filter_label_rows:
  assumes "distinct idx" "label \<in> set idx"
  shows "filter (\<lambda>(l, r). l = label) (map (\<lambda>l. (l, g l)) idx) = [(label, g label)]"
proof -
  have "filter (\<lambda>(l, r). l = label) (map (\<lambda>l. (l, g l)) idx)
          = map (\<lambda>l. (l, g l)) (filter (\<lambda>l. l = label) idx)"
    by (simp add: filter_map comp_def)
  then show ?thesis by (simp add: filter_eq_singleton [OF assms])
qed

lemma set_sorted_index: "set (sorted_index df assets) = set (merged_index df assets)"
  by (auto simp: sorted_index_def)

lemma distinct_sorted_index: "distinct (sorted_index df assets)"
  by (auto simp: sorted_index_def distinct_merged_index)

lemma sorted_index_split:
  "sorted_index df assets
     = sort_key (\<lambda>label. int_of (cell_of (order_col assets) label))
                (filter (\<lambda>label. label \<in> asset_id ` set assets) (merged_index df assets))
       @ filter (\<lambda>label. label \<notin> asset_id ` set assets) (append_new [] (map fst (rows df)))"
proof -
  have "filter (\<lambda>label. label \<notin> set (map asset_id assets)) (merged_index df assets)
          = filter (\<lambda>label. label \<notin> set (map asset_id assets)) (append_new [] (map fst (rows df)))"
    unfolding merged_index_def by (rule filter_append_new)
  then show ?thesis by (simp add: sorted_index_def)
qed

lemma ranked_part_set:
  "set (sort_key (\<lambda>label. int_of (cell_of (order_col assets) label))
                (filter (\<lambda>label. label \<in> asset_id ` set assets) (merged_index df assets)))
     = asset_id ` set assets"
  by (auto simp: set_merged_index)

lemma merged_cell_last:
  assumes "assets = pre @ asset # post" "asset_id asset \<notin> asset_id ` set post"
  shows "cell_of (merged_col f c df assets) (asset_id asset) = f (length pre) asset"
proof -
  have e: "enumerate 0 assets
             = enumerate 0 pre @ (length pre, asset) # enumerate (Suc (length pre)) post"
    by (simp add: assms(1) enumerate_append_eq)
  have "asset_id asset
          \<notin> (\<lambda>(order, asset). asset_id asset) ` set (enumerate (Suc (length pre)) post)"
    using assms(2) by (simp add: set_enumerate_ids)
  then show ?thesis
    unfolding merged_col_def e by (rule cell_of_put_all_last)
qed

lemma order_cell_last:
  assumes "assets = pre @ asset # post" "asset_id asset \<notin> asset_id ` set post"
  shows "cell_of (order_col assets) (asset_id asset) = IntV (int (length pre))"
proof -
  have e: "enumerate 0 assets
             = enumerate 0 pre @ (length pre, asset) # enumerate (Suc (length pre)) post"
    by (simp add: assms(1) enumerate_append_eq)
  have "asset_id asset
          \<notin> (\<lambda>(order, asset). asset_id asset) ` set (enumerate (Suc (length pre)) post)"
    using assms(2) by (simp add: set_enumerate_ids)
  then show ?thesis
    unfolding order_col_def e by (rule cell_of_put_all_last)
qed

lemma value_row_last:
  assumes "assets = pre @ asset # post" "asset_id asset \<notin> asset_id ` set post"
  shows "value_row df assets (asset_id asset)
           = [(''Symbol'', symbol asset), (''Name'', name asset), (''Slug'', slug asset),
              (''Price in USD'', price_usd asset), (''Rank'', rank asset)]"
  by (simp add: value_row_def merged_cell_last [OF assms])

lemma prior_cell:
  assumes "distinct (map fst (rows df))" "(label, r) \<in> set (rows df)"
  shows "cell_of (prior_col df c) label = cell_of r c"
  unfolding prior_col_def
proof (rule cell_of_dict_of_distinct)
  show "distinct (map fst (map (\<lambda>(label, r). (label, cell_of r c)) (rows df)))"
    using assms(1) by (simp add: comp_def case_prod_unfold)
  show "(label, cell_of r c) \<in> set (map (\<lambda>(label, r). (label, cell_of r c)) (rows df))"
    using assms(2) by force
qed

lemma merged_cell_kept:
  assumes "distinct (map fst (rows df))" "(label, r) \<in> set (rows df)"
    "label \<notin> asset_id ` set assets"
  shows "cell_of (merged_col f c df assets) label = cell_of r c"
proof -
  have "label \<notin> (\<lambda>(order, asset). asset_id asset) ` set (enumerate 0 assets)"
    using assms(3) by (simp add: set_enumerate_ids)
  then have "cell_of (merged_col f c df assets) label = cell_of (prior_col df c) label"
    unfolding merged_col_def by (rule cell_of_put_all_other)
  then show ?thesis by (simp add: prior_cell [OF assms(1,2)])
qed

lemma value_row_kept:
  assumes "distinct (map fst (rows df))" "(label, r) \<in> set (rows df)"
    "label \<notin> asset_id ` set assets"
  shows "value_row df assets label
           = [(''Symbol'', cell_of r ''Symbol''), (''Name'', cell_of r ''Name''),
              (''Slug'', cell_of r ''Slug''), (''Price in USD'', cell_of r ''Price in USD''),
              (''Rank'', cell_of r ''Rank'')]"
  by (simp add: value_row_def merged_cell_kept [OF assms])

section \<open>Properties of the merge and the sort\<close>

text \<open>
  Claim C10. When the fetched list holds several assets with the same identifier, the
  merged frame has exactly one row for that identifier; its cells and its \<open>Order\<close> are
  those of the last occurrence in the list (the asset after which the identifier does
  not occur again), at whatever position that is.
\<close>

theorem duplicate_identifiers_keep_last_occurrence:
  assumes "columns df = [''Symbol'', ''Name'', ''Slug'', ''Price in USD'', ''Rank'']"
    and "assets = pre @ asset # post"
    and "asset_id asset \<notin> asset_id ` set post"
  shows "\<exists>merged. upsert_cryptocurrencies df assets = Inr merged
           \<and> distinct (map fst (rows merged))
           \<and> filter (\<lambda>(label, r). label = asset_id asset) (rows merged)
               = [(asset_id asset,
                   [(''Symbol'', symbol asset), (''Name'', name asset), (''Slug'', slug asset),
                    (''Price in USD'', price_usd asset), (''Rank'', rank asset),
                    (''Order'', IntV (int (length pre)))])]"
proof -
  let ?g = "\<lambda>label. value_row df assets label @ [(''Order'', cell_of (order_col assets) label)]"
  let ?merged = "\<lparr>columns = [''Symbol'', ''Name'', ''Slug'', ''Price in USD'', ''Rank'', ''Order''],
                  rows = map (\<lambda>label. (label, ?g label)) (merged_index df assets)\<rparr>"
  have u: "upsert_cryptocurrencies df assets = Inr ?merged"
    by (rule upsert_rows [OF assms(1)])
  have d: "distinct (map fst (rows ?merged))"
    by (simp add: comp_def distinct_merged_index)
  have "asset_id asset \<in> set (merged_index df assets)"
    by (simp add: set_merged_index assms(2))
  then have "filter (\<lambda>(label, r). label = asset_id asset) (rows ?merged)
               = [(asset_id asset, ?g (asset_id asset))]"
    using filter_label_rows [OF distinct_merged_index, of "asset_id asset" df assets ?g]
    by simp
  then have f: "filter (\<lambda>(label, r). label = asset_id asset) (rows ?merged)
               = [(asset_id asset,
                   [(''Symbol'', symbol asset), (''Name'', name asset), (''Slug'', slug asset),
                    (''Price in USD'', price_usd asset), (''Rank'', rank asset),
                    (''Order'', IntV (int (length pre)))])]"
    by (simp add: value_row_last [OF assms(2,3)] order_cell_last [OF assms(2,3)])
  from u d f show ?thesis by blast
qed

theorem duplicate_identifiers_keep_last_occurrence_witness:
  "\<exists>merged. upsert_cryptocurrencies
        \<lparr>columns = [''Symbol'', ''Name'', ''Slug'', ''Price in USD'', ''Rank''], rows = []\<rparr>
        [\<lparr>asset_id = Other ''x'', symbol = Other ''X1'', name = Other ''first'',
          slug = Other ''x'', price_usd = IntV 1, rank = IntV 1\<rparr>,
         \<lparr>asset_id = Other ''y'', symbol = Other ''Y'', name = Other ''other'',
          slug = Other ''y'', price_usd = IntV 2, rank = IntV 2\<rparr>,
         \<lparr>asset_id = Other ''x'', symbol = Other ''X2'', name = Other ''second'',
          slug = Other ''x'', price_usd = IntV 3, rank = IntV 3\<rparr>] = Inr merged
     \<and> distinct (map fst (rows merged))
     \<and> filter (\<lambda>(label, r). label = Other ''x'') (rows merged)
         = [(Other ''x'',
             [(''Symbol'', Other ''X2''), (''Name'', Other ''second''), (''Slug'', Other ''x''),
              (''Price in USD'', IntV 3), (''Rank'', IntV 3), (''Order'', IntV 2)])]"
proof -
  let ?df = "\<lparr>columns = [''Symbol'', ''Name'', ''Slug'', ''Price in USD'', ''Rank''],
              rows = ([] :: (string cell \<times> string row) list)\<rparr>"
  let ?x1 = "\<lparr>asset_id = Other ''x'', symbol = Other ''X1'', name = Other ''first'',
          slug = Other ''x'', price_usd = IntV 1, rank = IntV 1\<rparr>"
  let ?y = "\<lparr>asset_id = Other ''y'', symbol = Other ''Y'', name = Other ''other'',
          slug = Other ''y'', price_usd = IntV 2, rank = IntV 2\<rparr>"
  let ?x2 = "\<lparr>asset_id = Other ''x'', symbol = Other ''X2'', name = Other ''second'',
          slug = Other ''x'', price_usd = IntV 3, rank = IntV 3\<rparr>"
  have h1: "columns ?df = [''Symbol'', ''Name'', ''Slug'', ''Price in USD'', ''Rank'']" by simp
  have h2: "[?x1, ?y, ?x2] = [?x1, ?y] @ ?x2 # []" by simp
  have h3: "asset_id ?x2 \<notin> asset_id ` set []" by simp
  show ?thesis
    using duplicate_identifiers_keep_last_occurrence [OF h1 h2 h3] by simp
qed

text \<open>
  Claim C3. For an identifier of the fetched list (in particular one that the stored
  frame holds as well), the row of the final frame has the cells of the fetched asset in
  all of Symbol, Name, Slug, Price in USD and Rank, and nothing of the stored row; there
  is exactly one such row. The fetched asset of an identifier is its last occurrence in
  the list.
\<close>

theorem fetched_assets_replace_stored_rows:
  assumes "columns df = [''Symbol'', ''Name'', ''Slug'', ''Price in USD'', ''Rank'']"
    and "assets = pre @ asset # post"
    and "asset_id asset \<notin> asset_id ` set post"
  shows "\<exists>final. and_then (upsert_cryptocurrencies df assets) sort_cryptocurrencies = Inr final
           \<and> filter (\<lambda>(label, r). label = asset_id asset) (rows final)
               = [(asset_id asset,
                   [(''Symbol'', symbol asset), (''Name'', name asset), (''Slug'', slug asset),
                    (''Price in USD'', price_usd asset), (''Rank'', rank asset)])]"
proof -
  let ?final = "\<lparr>columns = [''Symbol'', ''Name'', ''Slug'', ''Price in USD'', ''Rank''],
                 rows = map (\<lambda>label. (label, value_row df assets label))
                            (sorted_index df assets)\<rparr>"
  have u: "and_then (upsert_cryptocurrencies df assets) sort_cryptocurrencies = Inr ?final"
    by (rule upsert_then_sort [OF assms(1)])
  have "asset_id asset \<in> set (sorted_index df assets)"
    by (simp add: set_sorted_index set_merged_index assms(2))
  then have "filter (\<lambda>(label, r). label = asset_id asset) (rows ?final)
               = [(asset_id asset, value_row df assets (asset_id asset))]"
    using filter_label_rows [OF distinct_sorted_index, of "asset_id asset" df assets
                                "value_row df assets"]
    by simp
  then have f: "filter (\<lambda>(label, r). label = asset_id asset) (rows ?final)
               = [(asset_id asset,
                   [(''Symbol'', symbol asset), (''Name'', name asset), (''Slug'', slug asset),
                    (''Price in USD'', price_usd asset), (''Rank'', rank asset)])]"
    by (simp add: value_row_last [OF assms(2,3)])
  from u f show ?thesis by blast
qed

theorem fetched_assets_replace_stored_rows_witness:
  "\<exists>final. and_then (upsert_cryptocurrencies
        \<lparr>columns = [''Symbol'', ''Name'', ''Slug'', ''Price in USD'', ''Rank''],
         rows = [(Other ''a'',
                  [(''Symbol'', Other ''OLD''), (''Name'', Other ''old name''),
                   (''Slug'', Other ''old-slug''), (''Price in USD'', IntV 1),
                   (''Rank'', IntV 7)])]\<rparr>
        [\<lparr>asset_id = Other ''b'', symbol = Other ''B'', name = Other ''bee'',
          slug = Other ''b'', price_usd = IntV 5, rank = IntV 1\<rparr>,
         \<lparr>asset_id = Other ''a'', symbol = Other ''A'', name = Other ''new name'',
          slug = Other ''new-slug'', price_usd = NaN, rank = IntV 2\<rparr>]) sort_cryptocurrencies
       = Inr final
     \<and> filter (\<lambda>(label, r). label = Other ''a'') (rows final)
         = [(Other ''a'',
             [(''Symbol'', Other ''A''), (''Name'', Other ''new name''),
              (''Slug'', Other ''new-slug''), (''Price in USD'', NaN), (''Rank'', IntV 2)])]"
proof -
  let ?df = "\<lparr>columns = [''Symbol'', ''Name'', ''Slug'', ''Price in USD'', ''Rank''],
         rows = [(Other ''a'',
                  [(''Symbol'', Other ''OLD''), (''Name'', Other ''old name''),
                   (''Slug'', Other ''old-slug''), (''Price in USD'', IntV 1),
                   (''Rank'', IntV 7)])]\<rparr>"
  let ?b = "\<lparr>asset_id = Other ''b'', symbol = Other ''B'', name = Other ''bee'',
          slug = Other ''b'', price_usd = IntV 5, rank = IntV 1\<rparr>"
  let ?a = "\<lparr>asset_id = Other ''a'', symbol = Other ''A'', name = Other ''new name'',
          slug = Other ''new-slug'', price_usd = NaN, rank = IntV 2\<rparr>"
  have h1: "columns ?df = [''Symbol'', ''Name'', ''Slug'', ''Price in USD'', ''Rank'']" by simp
  have h2: "[?b, ?a] = [?b] @ ?a # []" by simp
  have h3: "asset_id ?a \<notin> asset_id ` set []" by simp
  show ?thesis
    using fetched_assets_replace_stored_rows [OF h1 h2 h3] by simp
qed

text \<open>
  Claim C4. A row of the stored frame whose identifier is not in the fetched list is in
  the final frame, once, with the cells it had in the five columns. The final frame
  lists first the identifiers of the fetched list and then the identifiers that were
  only stored, these in the order of the stored frame.
\<close>

theorem unfetched_rows_are_kept_after_ranked_rows:
  assumes "columns df = [''Symbol'', ''Name'', ''Slug'', ''Price in USD'', ''Rank'']"
    and "distinct (map fst (rows df))"
    and "(label, r) \<in> set (rows df)"
    and "label \<notin> asset_id ` set assets"
  shows "\<exists>final ranked unranked.
           and_then (upsert_cryptocurrencies df assets) sort_cryptocurrencies = Inr final
           \<and> filter (\<lambda>(l, r'). l = label) (rows final)
               = [(label,
                   [(''Symbol'', cell_of r ''Symbol''), (''Name'', cell_of r ''Name''),
                    (''Slug'', cell_of r ''Slug''),
                    (''Price in USD'', cell_of r ''Price in USD''),
                    (''Rank'', cell_of r ''Rank'')])]
           \<and> map fst (rows final) = ranked @ unranked
           \<and> set ranked = asset_id ` set assets
           \<and> unranked = filter (\<lambda>l. l \<notin> asset_id ` set assets) (map fst (rows df))
           \<and> label \<in> set unranked"
proof -
  let ?final = "\<lparr>columns = [''Symbol'', ''Name'', ''Slug'', ''Price in USD'', ''Rank''],
                 rows = map (\<lambda>label. (label, value_row df assets label))
                            (sorted_index df assets)\<rparr>"
  let ?ranked = "sort_key (\<lambda>label. int_of (cell_of (order_col assets) label))
                (filter (\<lambda>label. label \<in> asset_id ` set assets) (merged_index df assets))"
  let ?unranked = "filter (\<lambda>l. l \<notin> asset_id ` set assets) (map fst (rows df))"
  have u: "and_then (upsert_cryptocurrencies df assets) sort_cryptocurrencies = Inr ?final"
    by (rule upsert_then_sort [OF assms(1)])
  have lab: "label \<in> fst ` set (rows df)" using assms(3) by force
  then have "label \<in> set (sorted_index df assets)"
    by (simp add: set_sorted_index set_merged_index)
  then have "filter (\<lambda>(l, r'). l = label) (rows ?final)
               = [(label, value_row df assets label)]"
    using filter_label_rows [OF distinct_sorted_index, of label df assets "value_row df assets"]
    by simp
  then have f: "filter (\<lambda>(l, r'). l = label) (rows ?final)
               = [(label,
                   [(''Symbol'', cell_of r ''Symbol''), (''Name'', cell_of r ''Name''),
                    (''Slug'', cell_of r ''Slug''),
                    (''Price in USD'', cell_of r ''Price in USD''),
                    (''Rank'', cell_of r ''Rank'')])]"
    by (simp add: value_row_kept [OF assms(2,3,4)])
  have "append_new [] (map fst (rows df)) = map fst (rows df)"
    using append_new_distinct [of "[]" "map fst (rows df)"] assms(2) by simp
  then have s: "sorted_index df assets = ?ranked @ ?unranked"
    by (simp add: sorted_index_split)
  have m: "map fst (rows ?final) = ?ranked @ ?unranked"
    by (simp add: comp_def s)
  have rs: "set ?ranked = asset_id ` set assets" by (rule ranked_part_set)
  have lu: "label \<in> set ?unranked" using lab assms(4) by simp
  from u f m rs lu show ?thesis by blast
qed

theorem unfetched_rows_are_kept_after_ranked_rows_witness:
  "\<exists>final ranked unranked.
     and_then (upsert_cryptocurrencies
        \<lparr>columns = [''Symbol'', ''Name'', ''Slug'', ''Price in USD'', ''Rank''],
         rows = [(Other ''a'',
                  [(''Symbol'', Other ''A''), (''Name'', Other ''stored only''),
                   (''Slug'', Other ''a''), (''Price in USD'', IntV 1), (''Rank'', IntV 7)]),
                 (Other ''b'',
                  [(''Symbol'', Other ''B''), (''Name'', Other ''stored and fetched''),
                   (''Slug'', Other ''b''), (''Price in USD'', IntV 2), (''Rank'', IntV 8)])]\<rparr>
        [\<lparr>asset_id = Other ''c'', symbol = Other ''C'', name = Other ''new'',
          slug = Other ''c'', price_usd = IntV 5, rank = IntV 1\<rparr>,
         \<lparr>asset_id = Other ''b'', symbol = Other ''B'', name = Other ''fetched'',
          slug = Other ''b'', price_usd = IntV 3, rank = IntV 2\<rparr>]) sort_cryptocurrencies
       = Inr final
     \<and> filter (\<lambda>(l, r'). l = Other ''a'') (rows final)
         = [(Other ''a'',
             [(''Symbol'', Other ''A''), (''Name'', Other ''stored only''),
              (''Slug'', Other ''a''), (''Price in USD'', IntV 1), (''Rank'', IntV 7)])]
     \<and> map fst (rows final) = ranked @ unranked
     \<and> set ranked = {Other ''c'', Other ''b''}
     \<and> unranked = [Other ''a'']"
proof -
  let ?ra = "[(''Symbol'', Other ''A''), (''Name'', Other ''stored only''),
              (''Slug'', Other ''a''), (''Price in USD'', IntV 1), (''Rank'', IntV (7::int))]"
  let ?rb = "[(''Symbol'', Other ''B''), (''Name'', Other ''stored and fetched''),
                   (''Slug'', Other ''b''), (''Price in USD'', IntV 2), (''Rank'', IntV (8::int))]"
  let ?df = "\<lparr>columns = [''Symbol'', ''Name'', ''Slug'', ''Price in USD'', ''Rank''],
              rows = [(Other ''a'', ?ra), (Other ''b'', ?rb)]\<rparr>"
  let ?c = "\<lparr>asset_id = Other ''c'', symbol = Other ''C'', name = Other ''new'',
          slug = Other ''c'', price_usd = IntV 5, rank = IntV 1\<rparr>"
  let ?b = "\<lparr>asset_id = Other ''b'', symbol = Other ''B'', name = Other ''fetched'',
          slug = Other ''b'', price_usd = IntV 3, rank = IntV 2\<rparr>"
  have h1: "columns ?df = [''Symbol'', ''Name'', ''Slug'', ''Price in USD'', ''Rank'']" by simp
  have h2: "distinct (map fst (rows ?df))" by simp
  have h3: "(Other ''a'', ?ra) \<in> set (rows ?df)" by simp
  have h4: "Other ''a'' \<notin> asset_id ` set [?c, ?b]" by simp
  show ?thesis
    using unfetched_rows_are_kept_after_ranked_rows [OF h1 h2 h3 h4]
    by (simp add: cell_of_def)
qed

lemma mset_filter_partition: "mset (filter P xs) + mset (filter (\<lambda>x. \<not> P x) xs) = mset xs"
  by (induction xs) simp_all

lemma not_nan_not_other: "\<not> is_nan c \<Longrightarrow> \<not> is_other c \<Longrightarrow> \<exists>i. c = IntV i"
  by (cases c) (simp_all add: is_nan_def is_other_def)

lemma sort_cryptocurrencies_result:
  assumes "''Order'' \<in> set (columns df)"
    and "\<forall>(label, r) \<in> set (rows df). \<not> is_other (cell_of r ''Order'')"
  shows "sort_cryptocurrencies df =
     Inr \<lparr>columns = filter (\<lambda>c. c \<noteq> ''Order'') (columns df),
          rows = map (\<lambda>(label, r). (label, filter (\<lambda>(c, x). c \<noteq> ''Order'') r))
                   (sort_key (\<lambda>(label, r). int_of (cell_of r ''Order''))
                      (filter (\<lambda>(label, r). \<not> is_nan (cell_of r ''Order'')) (rows df))
                    @ filter (\<lambda>(label, r). is_nan (cell_of r ''Order'')) (rows df))\<rparr>"
proof -
  have "\<not> list_ex (\<lambda>(label, r). is_other (cell_of r ''Order'')) (rows df)"
    using assms(2) by (auto simp: list_ex_iff)
  then show ?thesis
    using assms(1)
    by (simp add: sort_cryptocurrencies_def sort_values_def drop_column_def and_then_def)
qed

text \<open>
  Claim C5. \<open>sort_cryptocurrencies\<close> puts the rows with an \<open>Order\<close> first, in ascending
  \<open>Order\<close>, and then the rows without one, in their previous order; it loses and adds no
  row and does not fail on rows without an \<open>Order\<close>. The \<open>Order\<close> column is removed from the
  columns and from every row, so that the file written from the result has no such
  column. On the frame that \<open>upsert_cryptocurrencies\<close> returns it never fails.
\<close>

theorem sorted_by_order_and_order_dropped:
  "(''Order'' \<in> set (columns df)
      \<and> (\<forall>(label, r) \<in> set (rows df). \<not> is_other (cell_of r ''Order''))
    \<longrightarrow> (\<exists>final ranked unranked.
           sort_cryptocurrencies df = Inr final
         \<and> mset (ranked @ unranked) = mset (rows df)
         \<and> (\<forall>(label, r) \<in> set ranked. \<exists>i. cell_of r ''Order'' = IntV i)
         \<and> sorted (map (\<lambda>(label, r). int_of (cell_of r ''Order'')) ranked)
         \<and> unranked = filter (\<lambda>(label, r). is_nan (cell_of r ''Order'')) (rows df)
         \<and> rows final
             = map (\<lambda>(label, r). (label, filter (\<lambda>(c, x). c \<noteq> ''Order'') r)) (ranked @ unranked)
         \<and> columns final = filter (\<lambda>c. c \<noteq> ''Order'') (columns df)
         \<and> (\<forall>(label, r) \<in> set (rows final). ''Order'' \<notin> set (keys r))
         \<and> ''Order'' \<notin> set (header (to_csv CSV_INDEX_COLUMN final))))
   \<and> (columns prior = [''Symbol'', ''Name'', ''Slug'', ''Price in USD'', ''Rank'']
    \<longrightarrow> (\<exists>merged final. upsert_cryptocurrencies prior assets = Inr merged
           \<and> sort_cryptocurrencies merged = Inr final))"
proof (intro conjI impI)
  assume h: "''Order'' \<in> set (columns df)
      \<and> (\<forall>(label, r) \<in> set (rows df). \<not> is_other (cell_of r ''Order''))"
  let ?key = "\<lambda>(label, r). int_of (cell_of r ''Order'')"
  let ?strip = "\<lambda>(label, r). (label, filter (\<lambda>(c, x). c \<noteq> ''Order'') r)"
  let ?ranked = "sort_key ?key (filter (\<lambda>(label, r). \<not> is_nan (cell_of r ''Order'')) (rows df))"
  let ?unranked = "filter (\<lambda>(label, r). is_nan (cell_of r ''Order'')) (rows df)"
  let ?final = "\<lparr>columns = filter (\<lambda>c. c \<noteq> ''Order'') (columns df),
                 rows = map ?strip (?ranked @ ?unranked)\<rparr>"
  have a: "sort_cryptocurrencies df = Inr ?final"
    using h by (intro sort_cryptocurrencies_result) simp_all
  have b: "mset (?ranked @ ?unranked) = mset (rows df)"
    using mset_filter_partition [of "\<lambda>(label, r). \<not> is_nan (cell_of r ''Order'')" "rows df"]
    by (simp add: case_prod_unfold)
  have c: "\<forall>(label, r) \<in> set ?ranked. \<exists>i. cell_of r ''Order'' = IntV i"
    using h by (auto intro: not_nan_not_other)
  have d: "sorted (map ?key ?ranked)" by (rule sorted_sort_key)
  have e: "\<forall>(label, r) \<in> set (rows ?final). ''Order'' \<notin> set (keys r)"
    by (auto simp: keys_def)
  have f: "''Order'' \<notin> set (header (to_csv CSV_INDEX_COLUMN ?final))"
    by (simp add: to_csv_def CSV_INDEX_COLUMN_def)
  have g: "rows ?final = map ?strip (?ranked @ ?unranked)" by simp
  have i: "columns ?final = filter (\<lambda>c. c \<noteq> ''Order'') (columns df)" by simp
  from a b c d e f g i
  show "\<exists>final ranked unranked.
           sort_cryptocurrencies df = Inr final
         \<and> mset (ranked @ unranked) = mset (rows df)
         \<and> (\<forall>(label, r) \<in> set ranked. \<exists>i. cell_of r ''Order'' = IntV i)
         \<and> sorted (map (\<lambda>(label, r). int_of (cell_of r ''Order'')) ranked)
         \<and> unranked = filter (\<lambda>(label, r). is_nan (cell_of r ''Order'')) (rows df)
         \<and> rows final
             = map (\<lambda>(label, r). (label, filter (\<lambda>(c, x). c \<noteq> ''Order'') r)) (ranked @ unranked)
         \<and> columns final = filter (\<lambda>c. c \<noteq> ''Order'') (columns df)
         \<and> (\<forall>(label, r) \<in> set (rows final). ''Order'' \<notin> set (keys r))
         \<and> ''Order'' \<notin> set (header (to_csv CSV_INDEX_COLUMN final))"
    by blast
next
  assume cols: "columns prior = [''Symbol'', ''Name'', ''Slug'', ''Price in USD'', ''Rank'']"
  from upsert_rows [OF cols, of assets] obtain merged
    where m: "upsert_cryptocurrencies prior assets = Inr merged" by blast
  from upsert_then_sort [OF cols, of assets] obtain final
    where "and_then (upsert_cryptocurrencies prior assets) sort_cryptocurrencies = Inr final"
    by blast
  with m have "sort_cryptocurrencies merged = Inr final" by (simp add: and_then_def)
  with m show "\<exists>merged final. upsert_cryptocurrencies prior assets = Inr merged
           \<and> sort_cryptocurrencies merged = Inr final" by blast
qed

theorem sorted_by_order_and_order_dropped_witness:
  "sort_cryptocurrencies
     \<lparr>columns = [''Symbol'', ''Order''],
      rows = [(Other ''a'', [(''Symbol'', Other ''A''), (''Order'', IntV 1)]),
              (Other ''z'', [(''Symbol'', Other ''Z''), (''Order'', NaN)]),
              (Other ''b'', [(''Symbol'', Other ''B''), (''Order'', IntV 0)])]\<rparr>
   = Inr \<lparr>columns = [''Symbol''],
          rows = [(Other ''b'', [(''Symbol'', Other ''B'')]),
                  (Other ''a'', [(''Symbol'', Other ''A'')]),
                  (Other ''z'', [(''Symbol'', Other ''Z'')])]\<rparr>
   \<and> (\<exists>merged final. upsert_cryptocurrencies
          \<lparr>columns = [''Symbol'', ''Name'', ''Slug'', ''Price in USD'', ''Rank''],
           rows = [(Other ''z'', [(''Symbol'', Other ''Z'')])]\<rparr>
          [\<lparr>asset_id = Other ''b'', symbol = Other ''B'', name = Other ''bee'',
            slug = Other ''b'', price_usd = NaN, rank = IntV 1\<rparr>] = Inr merged
        \<and> sort_cryptocurrencies merged = Inr final)"
proof -
  let ?df = "\<lparr>columns = [''Symbol'', ''Order''],
      rows = [(Other ''a'', [(''Symbol'', Other ''A''), (''Order'', IntV 1)]),
              (Other ''z'', [(''Symbol'', Other ''Z''), (''Order'', NaN)]),
              (Other ''b'', [(''Symbol'', Other ''B''), (''Order'', IntV 0)])]\<rparr>"
  let ?prior = "\<lparr>columns = [''Symbol'', ''Name'', ''Slug'', ''Price in USD'', ''Rank''],
           rows = [(Other ''z'', [(''Symbol'', Other ''Z'')])]\<rparr>"
  let ?assets = "[\<lparr>asset_id = Other ''b'', symbol = Other ''B'', name = Other ''bee'',
            slug = Other ''b'', price_usd = NaN, rank = IntV 1\<rparr>]"
  have h1: "''Order'' \<in> set (columns ?df)
      \<and> (\<forall>(label, r) \<in> set (rows ?df). \<not> is_other (cell_of r ''Order''))"
    by (simp add: is_other_def cell_of_def)
  have h2: "columns ?prior = [''Symbol'', ''Name'', ''Slug'', ''Price in USD'', ''Rank'']"
    by simp
  from sorted_by_order_and_order_dropped [of ?df ?prior ?assets] h1 h2
  obtain final ranked unranked where
    a: "sort_cryptocurrencies ?df = Inr final"
    and b: "unranked = filter (\<lambda>(label, r). is_nan (cell_of r ''Order'')) (rows ?df)"
    and c: "mset (ranked @ unranked) = mset (rows ?df)"
    and d: "\<exists>merged final. upsert_cryptocurrencies ?prior ?assets = Inr merged
           \<and> sort_cryptocurrencies merged = Inr final"
    by blast
  have "sort_cryptocurrencies ?df
   = Inr \<lparr>columns = [''Symbol''],
          rows = [(Other ''b'', [(''Symbol'', Other ''B'')]),
                  (Other ''a'', [(''Symbol'', Other ''A'')]),
                  (Other ''z'', [(''Symbol'', Other ''Z'')])]\<rparr>"
    by (simp add: sort_cryptocurrencies_def sort_values_def drop_column_def and_then_def
                  is_other_def is_nan_def cell_of_def int_of_def)
  with d show ?thesis by blast
qed

section \<open>The whole run\<close>

lemma map_rows_enumerate: "map (\<lambda>(i, r). h r) (enumerate n xs) = map h xs"
  by (induction xs arbitrary: n) simp_all

lemma read_after_save:
  assumes "''ID'' \<notin> set (columns df)"
    and "\<forall>(label, r) \<in> set (rows df). ''ID'' \<notin> set (keys r)"
  shows "read_cryptocurrencies_from_csv (save_cryptocurrencies_to_csv files df filename) filename
           = Inr df"
proof -
  let ?recs = "map (\<lambda>(label, r). (''ID'', label) # r) (rows df)"
  have c: "filter (\<lambda>c. c \<noteq> ''ID'') (columns df) = columns df"
    using assms(1) by (auto simp: filter_id_conv)
  have "map (\<lambda>(label, r). (cell_of r ''ID'', filter (\<lambda>(c, x). c \<noteq> ''ID'') r))
            (map (\<lambda>(i, r). (IntV (int i), r)) (enumerate 0 ?recs))
          = map (\<lambda>r. (cell_of r ''ID'', filter (\<lambda>(c, x). c \<noteq> ''ID'') r)) ?recs"
    using map_rows_enumerate
            [of "\<lambda>r. (cell_of r ''ID'', filter (\<lambda>(c, x). c \<noteq> ''ID'') r)" 0 ?recs]
    by (simp add: comp_def case_prod_unfold)
  also have "\<dots> = map (\<lambda>(label, r). (label, filter (\<lambda>(c, x). c \<noteq> ''ID'') r)) (rows df)"
    by (simp add: comp_def case_prod_unfold cell_of_def)
  also have "\<dots> = rows df"
  proof -
    have "\<And>label r. (label, r) \<in> set (rows df) \<Longrightarrow> filter (\<lambda>(c, x). c \<noteq> ''ID'') r = r"
      using assms(2) by (force simp: filter_id_conv keys_def)
    then have "map (\<lambda>(label, r). (label, filter (\<lambda>(c, x). c \<noteq> ''ID'') r)) (rows df)
                 = map (\<lambda>x. x) (rows df)"
      by (intro map_cong) auto
    then show ?thesis by simp
  qed
  finally have r: "map (\<lambda>(label, r). (cell_of r ''ID'', filter (\<lambda>(c, x). c \<noteq> ''ID'') r))
            (map (\<lambda>(i, r). (IntV (int i), r)) (enumerate 0 ?recs)) = rows df" .
  have "read_cryptocurrencies_from_csv (save_cryptocurrencies_to_csv files df filename) filename
          = Inr \<lparr>columns = columns df, rows = rows df\<rparr>"
    by (simp add: read_cryptocurrencies_from_csv_def save_cryptocurrencies_to_csv_def
                  to_csv_def read_csv_def set_index_def CSV_INDEX_COLUMN_def c r
             del: map_map)
  then show ?thesis by simp
qed

lemma read_value_columns:
  assumes "files filename = None
             \<or> (\<exists>file. files filename = Some file \<and> header file = CSV_COLUMNS)"
  shows "\<exists>df. read_cryptocurrencies_from_csv files filename = Inr df
            \<and> columns df = [''Symbol'', ''Name'', ''Slug'', ''Price in USD'', ''Rank'']"
  using assms
  by (auto simp: read_cryptocurrencies_from_csv_def read_csv_def set_index_def
                 CSV_INDEX_COLUMN_def CSV_COLUMNS_def)

lemma value_row_cell:
  "cell_of (value_row df assets label) ''Symbol''
     = cell_of (merged_col (\<lambda>order. symbol) ''Symbol'' df assets) label"
  "cell_of (value_row df assets label) ''Name''
     = cell_of (merged_col (\<lambda>order. name) ''Name'' df assets) label"
  "cell_of (value_row df assets label) ''Slug''
     = cell_of (merged_col (\<lambda>order. slug) ''Slug'' df assets) label"
  "cell_of (value_row df assets label) ''Price in USD''
     = cell_of (merged_col (\<lambda>order. price_usd) ''Price in USD'' df assets) label"
  "cell_of (value_row df assets label) ''Rank''
     = cell_of (merged_col (\<lambda>order. rank) ''Rank'' df assets) label"
  by (simp_all add: value_row_def cell_of_def)

lemma merged_cell_again:
  assumes rows1: "rows df1 = map (\<lambda>label. (label, value_row df assets label))
                               (sorted_index df assets)"
    and cell: "\<And>label. cell_of (value_row df assets label) c
                          = cell_of (merged_col f c df assets) label"
    and label: "label \<in> set (sorted_index df assets)"
  shows "cell_of (merged_col f c df1 assets) label = cell_of (merged_col f c df assets) label"
proof (cases "label \<in> asset_id ` set assets")
  case True
  then have "label \<in> (\<lambda>(order, asset). asset_id asset) ` set (enumerate 0 assets)"
    by (simp add: set_enumerate_ids)
  then show ?thesis unfolding merged_col_def by (rule cell_of_put_all_fetched)
next
  case False
  have d: "distinct (map fst (rows df1))"
    by (simp add: rows1 comp_def distinct_sorted_index)
  have m: "(label, value_row df assets label) \<in> set (rows df1)"
    using label by (simp add: rows1)
  have "cell_of (merged_col f c df1 assets) label = cell_of (value_row df assets label) c"
    using d m False by (rule merged_cell_kept)
  also have "\<dots> = cell_of (merged_col f c df assets) label" by (rule cell)
  finally show ?thesis .
qed

lemma value_row_again:
  assumes "rows df1 = map (\<lambda>label. (label, value_row df assets label))
                          (sorted_index df assets)"
    and "label \<in> set (sorted_index df assets)"
  shows "value_row df1 assets label = value_row df assets label"
  unfolding value_row_def [of df1]
  by (simp only: merged_cell_again [OF assms(1) value_row_cell(1) assms(2)]
                 merged_cell_again [OF assms(1) value_row_cell(2) assms(2)]
                 merged_cell_again [OF assms(1) value_row_cell(3) assms(2)]
                 merged_cell_again [OF assms(1) value_row_cell(4) assms(2)]
                 merged_cell_again [OF assms(1) value_row_cell(5) assms(2)])
     (simp add: value_row_def)

lemma sorted_index_again:
  assumes "rows df1 = map (\<lambda>label. (label, value_row df assets label))
                          (sorted_index df assets)"
  shows "sorted_index df1 assets = sorted_index df assets"
proof -
  let ?ids = "set (map asset_id assets)"
  let ?ord = "\<lambda>label. int_of (cell_of (order_col assets) label)"
  let ?K = "merged_index df assets"
  let ?A = "sort_key ?ord (filter (\<lambda>label. label \<in> ?ids) ?K)"
  let ?B = "filter (\<lambda>label. label \<notin> ?ids) ?K"
  have si: "sorted_index df assets = ?A @ ?B" by (simp add: sorted_index_def)
  have labels: "map fst (rows df1) = sorted_index df assets"
    by (simp add: assms comp_def)
  have "append_new [] (sorted_index df assets) = sorted_index df assets"
    using append_new_distinct [of "[]" "sorted_index df assets"]
          distinct_sorted_index [of df assets]
    by simp
  moreover have "append_new (sorted_index df assets) (map asset_id assets)
                   = sorted_index df assets"
    by (rule append_new_subset) (auto simp: set_sorted_index set_merged_index)
  ultimately have mi: "merged_index df1 assets = ?A @ ?B"
    by (simp add: merged_index_def labels si)
  have fa: "filter (\<lambda>label. label \<in> ?ids) ?A = ?A"
    by (simp add: filter_id_conv)
  have fb: "filter (\<lambda>label. label \<in> ?ids) ?B = []"
    by (simp add: filter_empty_conv)
  have ga: "filter (\<lambda>label. label \<notin> ?ids) ?A = []"
    by (simp add: filter_empty_conv)
  have gb: "filter (\<lambda>label. label \<notin> ?ids) ?B = ?B"
    by (simp add: filter_id_conv)
  have sa: "sort_key f (sort_key f xs) = sort_key f xs" for f :: "'a cell \<Rightarrow> int" and xs
    by (rule sort_key_id_if_sorted) (rule sorted_sort_key)
  have "sorted_index df1 assets = ?A @ ?B"
    unfolding sorted_index_def mi filter_append fa fb ga gb by (simp add: sa)
  with si show ?thesis by simp
qed

lemma upsert_then_sort_again:
  assumes "columns df = [''Symbol'', ''Name'', ''Slug'', ''Price in USD'', ''Rank'']"
    and "and_then (upsert_cryptocurrencies df assets) sort_cryptocurrencies = Inr df1"
  shows "and_then (upsert_cryptocurrencies df1 assets) sort_cryptocurrencies = Inr df1"
proof -
  let ?five = "[''Symbol'', ''Name'', ''Slug'', ''Price in USD'', ''Rank'']"
  have df1: "df1 = \<lparr>columns = ?five,
                    rows = map (\<lambda>label. (label, value_row df assets label))
                               (sorted_index df assets)\<rparr>"
    using upsert_then_sort [OF assms(1), of assets] assms(2) by simp
  then have c1: "columns df1 = ?five"
    and r1: "rows df1 = map (\<lambda>label. (label, value_row df assets label))
                            (sorted_index df assets)"
    by simp_all
  have "map (\<lambda>label. (label, value_row df1 assets label)) (sorted_index df assets)
          = map (\<lambda>label. (label, value_row df assets label)) (sorted_index df assets)"
    by (rule map_cong) (simp_all add: value_row_again [OF r1])
  then have "and_then (upsert_cryptocurrencies df1 assets) sort_cryptocurrencies
          = Inr \<lparr>columns = ?five,
                 rows = map (\<lambda>label. (label, value_row df assets label))
                            (sorted_index df assets)\<rparr>"
    by (simp only: upsert_then_sort [OF c1] sorted_index_again [OF r1])
  then show ?thesis by (simp only: df1 [symmetric])
qed

lemma sorted_frame_has_no_ID:
  assumes "columns df = [''Symbol'', ''Name'', ''Slug'', ''Price in USD'', ''Rank'']"
    and "and_then (upsert_cryptocurrencies df assets) sort_cryptocurrencies = Inr df1"
  shows "''ID'' \<notin> set (columns df1)"
    and "\<forall>(label, r) \<in> set (rows df1). ''ID'' \<notin> set (keys r)"
proof -
  have df1: "df1 = \<lparr>columns = [''Symbol'', ''Name'', ''Slug'', ''Price in USD'', ''Rank''],
                    rows = map (\<lambda>label. (label, value_row df assets label))
                               (sorted_index df assets)\<rparr>"
    using upsert_then_sort [OF assms(1), of assets] assms(2) by simp
  show "''ID'' \<notin> set (columns df1)" by (simp add: df1)
  show "\<forall>(label, r) \<in> set (rows df1). ''ID'' \<notin> set (keys r)"
    by (auto simp: df1 value_row_def keys_def)
qed

lemma main_fetch_failure:
  "get_assets_from_messari session completion = Some (launched, Inl e)
     \<Longrightarrow> main argv session completion files = Some (files, Inl e)"
  by (simp add: main_def)

lemma main_success:
  assumes "get_assets_from_messari session completion = Some (launched, Inr assets)"
    and "read_cryptocurrencies_from_csv files
           (if length argv = 2 then argv ! 1 else CSV_DEFAULT_FILENAME) = Inr df"
    and "and_then (upsert_cryptocurrencies df assets) sort_cryptocurrencies = Inr final"
  shows "main argv session completion files
           = Some (save_cryptocurrencies_to_csv files final
                     (if length argv = 2 then argv ! 1 else CSV_DEFAULT_FILENAME), Inr ())"
  using assms by (simp add: main_def Let_def and_then_def)

lemma get_assets_raises:
  assumes "\<And>p. 1 \<le> p \<Longrightarrow> p < 1 + 7 * n
             \<Longrightarrow> \<exists>x. get_one_page_asset_data_from_messari session p = Inr x \<and> x \<noteq> []"
    and "\<exists>p. 1 + 7 * n \<le> p \<and> p < 8 + 7 * n
             \<and> get_one_page_asset_data_from_messari session p = Inl e"
  shows "\<exists>launched e'. get_assets_from_messari session completion = Some (launched, Inl e')"
proof -
  define pg where
    "pg p = (case get_one_page_asset_data_from_messari session p of Inl _ \<Rightarrow> [] | Inr x \<Rightarrow> x)"
    for p
  have ok: "get_one_page_asset_data_from_messari session p = Inr (pg p) \<and> pg p \<noteq> []"
    if "1 \<le> p" "p < 1 + 7 * n" for p
    using assms(1) [OF that] by (auto simp: pg_def)
  have "\<exists>e'. fetch_batches session completion 1 [] []
           = Some ([] @ [1..<1 + 7 * Suc n], Inl e')"
  proof (rule fetch_batches_run_raise)
    fix p :: nat assume "1 \<le> p" "p < 1 + 7 * n"
    then show "get_one_page_asset_data_from_messari session p = Inr (pg p)"
      using ok by blast
  next
    fix p :: nat assume "1 \<le> p" "p < 1 + 7 * n"
    then show "pg p \<noteq> []" using ok by blast
  next
    from assms(2) obtain p where "1 + 7 * n \<le> p" "p < 8 + 7 * n"
      "get_one_page_asset_data_from_messari session p = Inl e" by blast
    then have "1 + 7 * n \<le> p \<and> p < 1 + 7 * Suc n
        \<and> get_one_page_asset_data_from_messari session p = Inl e" by simp
    then show "\<exists>p. 1 + 7 * n \<le> p \<and> p < 1 + 7 * Suc n
        \<and> get_one_page_asset_data_from_messari session p = Inl e" ..
  qed
  then show ?thesis by (auto simp: get_assets_from_messari_def)
qed

text \<open>
  Claim C6. When a page fetch of a batch raises (all batches before it having returned
  non-empty pages), the run ends with an exception and the files are those it started
  with. In general a run that ends with an exception leaves the files unchanged, and a
  run that ends normally has written the file from the completely merged and sorted
  frame; nothing else is ever written.
\<close>

theorem failed_fetch_leaves_files_unchanged:
  "((\<forall>p. 1 \<le> p \<and> p < 1 + 7 * n
        \<longrightarrow> (\<exists>x. get_one_page_asset_data_from_messari session p = Inr x \<and> x \<noteq> []))
     \<and> (\<exists>p. 1 + 7 * n \<le> p \<and> p < 8 + 7 * n
            \<and> get_one_page_asset_data_from_messari session p = Inl e)
    \<longrightarrow> (\<exists>e'. main argv session completion files = Some (files, Inl e')))
   \<and> (main argv session completion files = Some (files', Inl e'') \<longrightarrow> files' = files)
   \<and> (main argv session completion files = Some (files', Inr ())
    \<longrightarrow> (\<exists>launched assets df final.
           get_assets_from_messari session completion = Some (launched, Inr assets)
         \<and> read_cryptocurrencies_from_csv files
              (if length argv = 2 then argv ! 1 else CSV_DEFAULT_FILENAME) = Inr df
         \<and> and_then (upsert_cryptocurrencies df assets) sort_cryptocurrencies = Inr final
         \<and> files' = files((if length argv = 2 then argv ! 1 else CSV_DEFAULT_FILENAME)
                            \<mapsto> to_csv CSV_INDEX_COLUMN final)))"
proof (intro conjI impI)
  assume h: "(\<forall>p. 1 \<le> p \<and> p < 1 + 7 * n
        \<longrightarrow> (\<exists>x. get_one_page_asset_data_from_messari session p = Inr x \<and> x \<noteq> []))
     \<and> (\<exists>p. 1 + 7 * n \<le> p \<and> p < 8 + 7 * n
            \<and> get_one_page_asset_data_from_messari session p = Inl e)"
  then obtain launched e'
    where "get_assets_from_messari session completion = Some (launched, Inl e')"
    using get_assets_raises [of n session e completion] by blast
  then have "main argv session completion files = Some (files, Inl e')"
    by (rule main_fetch_failure)
  then show "\<exists>e'. main argv session completion files = Some (files, Inl e')" ..
next
  assume "main argv session completion files = Some (files', Inl e'')"
  then show "files' = files"
    by (auto simp: main_def Let_def split: option.splits sum.splits prod.splits)
next
  let ?fn = "if length argv = 2 then argv ! 1 else CSV_DEFAULT_FILENAME"
  assume m: "main argv session completion files = Some (files', Inr ())"
  then obtain launched r
    where g: "get_assets_from_messari session completion = Some (launched, r)"
    by (cases "get_assets_from_messari session completion") (auto simp: main_def)
  from m g obtain assets where r: "r = Inr assets"
    by (cases r) (auto simp: main_def)
  let ?run = "and_then (read_cryptocurrencies_from_csv files ?fn)
                (\<lambda>df. and_then (upsert_cryptocurrencies df assets) sort_cryptocurrencies)"
  from m g r obtain final where run: "?run = Inr final"
    and f: "files' = save_cryptocurrencies_to_csv files final ?fn"
    by (cases ?run) (auto simp: main_def Let_def)
  from run obtain df where rd: "read_cryptocurrencies_from_csv files ?fn = Inr df"
    and p: "and_then (upsert_cryptocurrencies df assets) sort_cryptocurrencies = Inr final"
    by (cases "read_cryptocurrencies_from_csv files ?fn") (auto simp: and_then_def)
  from f have f': "files' = files(?fn \<mapsto> to_csv CSV_INDEX_COLUMN final)"
    by (simp only: save_cryptocurrencies_to_csv_def)
  from g r rd p f'
  show "\<exists>launched assets df final.
           get_assets_from_messari session completion = Some (launched, Inr assets)
         \<and> read_cryptocurrencies_from_csv files
              (if length argv = 2 then argv ! 1 else CSV_DEFAULT_FILENAME) = Inr df
         \<and> and_then (upsert_cryptocurrencies df assets) sort_cryptocurrencies = Inr final
         \<and> files' = files((if length argv = 2 then argv ! 1 else CSV_DEFAULT_FILENAME)
                            \<mapsto> to_csv CSV_INDEX_COLUMN final)"
    by blast
qed

theorem failed_fetch_leaves_files_unchanged_witness:
  "\<exists>e'. main [''app.py'']
       (\<lambda>p. if p = 3
            then Inr \<lparr>status = \<lparr>error_code = Some 500,
                                error_message = Some ''Internal Server Error''\<rparr>,
                      data = None\<rparr>
            else Inr \<lparr>status = \<lparr>error_code = None, error_message = None\<rparr>,
                      data = Some [\<lparr>asset_id = Other ''a'', symbol = Other ''A'',
                                    name = Other ''new'', slug = Other ''a'',
                                    price_usd = NaN, rank = IntV (int p)\<rparr>]\<rparr>)
       (\<lambda>i. [])
       (Map.empty(''cryptocurrencies.csv'' \<mapsto>
          \<lparr>header = CSV_COLUMNS,
           records = [[(''ID'', Other ''a''), (''Symbol'', Other ''A''), (''Name'', Other ''old''),
                      (''Slug'', Other ''a''), (''Price in USD'', IntV 1), (''Rank'', IntV 1)]]\<rparr>))
     = Some (Map.empty(''cryptocurrencies.csv'' \<mapsto>
          \<lparr>header = CSV_COLUMNS,
           records = [[(''ID'', Other ''a''), (''Symbol'', Other ''A''), (''Name'', Other ''old''),
                      (''Slug'', Other ''a''), (''Price in USD'', IntV 1), (''Rank'', IntV 1)]]\<rparr>),
             Inl e')"
proof -
  let ?s = "\<lambda>p. if p = 3
            then Inr \<lparr>status = \<lparr>error_code = Some 500,
                                error_message = Some ''Internal Server Error''\<rparr>,
                      data = None\<rparr>
            else Inr \<lparr>status = \<lparr>error_code = None, error_message = None\<rparr>,
                      data = Some [\<lparr>asset_id = Other ''a'', symbol = Other ''A'',
                                    name = Other ''new'', slug = Other ''a'',
                                    price_usd = NaN, rank = IntV (int p)\<rparr>]\<rparr>"
  have h: "(\<forall>p. 1 \<le> p \<and> p < 1 + 7 * 0
        \<longrightarrow> (\<exists>x. get_one_page_asset_data_from_messari ?s p = Inr x \<and> x \<noteq> []))
     \<and> (\<exists>p. 1 + 7 * 0 \<le> p \<and> p < 8 + 7 * 0
            \<and> get_one_page_asset_data_from_messari ?s p
                = Inl (Exception ''Internal Server Error''))"
  proof -
    have "get_one_page_asset_data_from_messari ?s 3 = Inl (Exception ''Internal Server Error'')"
      by (simp add: get_one_page_asset_data_from_messari_def)
    then have "1 + 7 * 0 \<le> (3::nat) \<and> (3::nat) < 8 + 7 * 0
        \<and> get_one_page_asset_data_from_messari ?s 3 = Inl (Exception ''Internal Server Error'')"
      by simp
    then show ?thesis by (intro conjI exI [of _ 3]) simp_all
  qed
  show ?thesis
    using failed_fetch_leaves_files_unchanged
            [of 0 ?s "Exception ''Internal Server Error''" "[''app.py'']" "\<lambda>i. []"] h
    by blast
qed

text \<open>
  Claim C9. Let a run fetch the list \<open>assets\<close>, the file being absent or having the six
  columns of the program. The run ends normally, and a second run from the files it
  leaves, fetching the same list, ends normally with the same files: the same cells in
  the same row order.
\<close>

theorem second_run_changes_nothing:
  assumes "get_assets_from_messari session completion = Some (launched, Inr assets)"
    and "files (if length argv = 2 then argv ! 1 else CSV_DEFAULT_FILENAME) = None
         \<or> (\<exists>file. files (if length argv = 2 then argv ! 1 else CSV_DEFAULT_FILENAME)
                       = Some file
                  \<and> header file = CSV_COLUMNS)"
  shows "\<exists>files1. main argv session completion files = Some (files1, Inr ())
            \<and> main argv session completion files1 = Some (files1, Inr ())"
proof -
  let ?fn = "if length argv = 2 then argv ! 1 else CSV_DEFAULT_FILENAME"
  let ?five = "[''Symbol'', ''Name'', ''Slug'', ''Price in USD'', ''Rank'']"
  from read_value_columns [of files ?fn] assms(2) obtain df
    where rd: "read_cryptocurrencies_from_csv files ?fn = Inr df" and cols: "columns df = ?five"
    by blast
  from upsert_then_sort [OF cols, of assets] obtain df1
    where p1: "and_then (upsert_cryptocurrencies df assets) sort_cryptocurrencies = Inr df1"
    by blast
  let ?files1 = "save_cryptocurrencies_to_csv files df1 ?fn"
  have m1: "main argv session completion files = Some (?files1, Inr ())"
    using assms(1) rd p1 by (rule main_success)
  have rd1: "read_cryptocurrencies_from_csv ?files1 ?fn = Inr df1"
    using sorted_frame_has_no_ID [OF cols p1] by (rule read_after_save)
  have p2: "and_then (upsert_cryptocurrencies df1 assets) sort_cryptocurrencies = Inr df1"
    using cols p1 by (rule upsert_then_sort_again)
  have "main argv session completion ?files1
          = Some (save_cryptocurrencies_to_csv ?files1 df1 ?fn, Inr ())"
    using assms(1) rd1 p2 by (rule main_success)
  moreover have "save_cryptocurrencies_to_csv ?files1 df1 ?fn = ?files1"
    by (simp add: save_cryptocurrencies_to_csv_def)
  ultimately have m2: "main argv session completion ?files1 = Some (?files1, Inr ())"
    by simp
  from m1 m2 show ?thesis by blast
qed

theorem second_run_changes_nothing_witness:
  "\<exists>files1. main [''app.py'']
       (\<lambda>p. if p = 1
            then Inr \<lparr>status = \<lparr>error_code = None, error_message = None\<rparr>,
                      data = Some [\<lparr>asset_id = Other ''b'', symbol = Other ''B'',
                                    name = Other ''bee'', slug = Other ''b'',
                                    price_usd = NaN, rank = IntV 1\<rparr>,
                                   \<lparr>asset_id = Other ''a'', symbol = Other ''A'',
                                    name = Other ''new'', slug = Other ''a'',
                                    price_usd = IntV 2, rank = IntV 2\<rparr>]\<rparr>
            else Inr \<lparr>status = \<lparr>error_code = Some 404, error_message = Some ''Not Found''\<rparr>,
                      data = None\<rparr>)
       (\<lambda>i. [])
       (Map.empty(''cryptocurrencies.csv'' \<mapsto>
          \<lparr>header = CSV_COLUMNS,
           records = [[(''ID'', Other ''a''), (''Symbol'', Other ''A''), (''Name'', Other ''old''),
                      (''Slug'', Other ''a''), (''Price in USD'', IntV 1), (''Rank'', IntV 1)]]\<rparr>))
       = Some (files1, Inr ())
     \<and> main [''app.py'']
       (\<lambda>p. if p = 1
            then Inr \<lparr>status = \<lparr>error_code = None, error_message = None\<rparr>,
                      data = Some [\<lparr>asset_id = Other ''b'', symbol = Other ''B'',
                                    name = Other ''bee'', slug = Other ''b'',
                                    price_usd = NaN, rank = IntV 1\<rparr>,
                                   \<lparr>asset_id = Other ''a'', symbol = Other ''A'',
                                    name = Other ''new'', slug = Other ''a'',
                                    price_usd = IntV 2, rank = IntV 2\<rparr>]\<rparr>
            else Inr \<lparr>status = \<lparr>error_code = Some 404, error_message = Some ''Not Found''\<rparr>,
                      data = None\<rparr>)
       (\<lambda>i. []) files1 = Some (files1, Inr ())"
proof -
  let ?b = "\<lparr>asset_id = Other ''b'', symbol = Other ''B'', name = Other ''bee'',
            slug = Other ''b'', price_usd = NaN, rank = IntV 1\<rparr>"
  let ?a = "\<lparr>asset_id = Other ''a'', symbol = Other ''A'', name = Other ''new'',
            slug = Other ''a'', price_usd = IntV 2, rank = IntV 2\<rparr>"
  let ?s = "\<lambda>p::nat. if p = 1
            then Inr \<lparr>status = \<lparr>error_code = None, error_message = None\<rparr>,
                      data = Some [?b, ?a]\<rparr>
            else Inr \<lparr>status = \<lparr>error_code = Some 404, error_message = Some ''Not Found''\<rparr>,
                      data = None\<rparr>"
  let ?files = "Map.empty(''cryptocurrencies.csv'' \<mapsto>
          \<lparr>header = CSV_COLUMNS,
           records = [[(''ID'', Other ''a''), (''Symbol'', Other ''A''), (''Name'', Other ''old''),
                      (''Slug'', Other ''a''), (''Price in USD'', IntV 1),
                      (''Rank'', IntV (1::int))]]\<rparr>)"
  have pages: "\<And>p. 1 \<le> p \<Longrightarrow> p \<le> length [[?b, ?a]]
                 \<Longrightarrow> get_one_page_asset_data_from_messari ?s p = Inr ([[?b, ?a]] ! (p - 1))"
    by (simp add: get_one_page_asset_data_from_messari_def)
  have past: "\<And>p. length [[?b, ?a]] < p \<Longrightarrow> get_one_page_asset_data_from_messari ?s p = Inr []"
    by (simp add: get_one_page_asset_data_from_messari_def)
  have full: "\<And>q. q \<in> set (butlast [[?b, ?a]]) \<Longrightarrow> q \<noteq> []" by simp
  have "\<exists>n. \<forall>completion. get_assets_from_messari ?s completion
           = Some ([1..<8 + 7 * n], Inr (concat [[?b, ?a]]))"
    using pages past full by (rule get_assets_pages)
  then obtain n where h1: "get_assets_from_messari ?s (\<lambda>i. [])
           = Some ([1..<8 + 7 * n], Inr [?b, ?a])"
    by auto
  have h2: "?files (if length [''app.py''] = 2 then [''app.py''] ! 1 else CSV_DEFAULT_FILENAME)
              = None
         \<or> (\<exists>file. ?files (if length [''app.py''] = 2 then [''app.py''] ! 1
                            else CSV_DEFAULT_FILENAME) = Some file
                  \<and> header file = CSV_COLUMNS)"
    by (simp add: CSV_DEFAULT_FILENAME_def)
  show ?thesis
    using second_run_changes_nothing
            [where session = ?s and completion = "\<lambda>i. []" and files = ?files
               and argv = "[''app.py'']", OF h1]
          h2
    by blast
qed

end
